theory Spec2Isabelle
  imports Main "HOL-Library.AList"
begin

section \<open>Python strings\<close>

text \<open>
  The model covers the texts whose characters are code points below 256: a Python \<open>str\<close>
  of such characters is a \<open>string\<close>, one \<open>char\<close> for each code point. \<open>isspace\<close> is
  Python's notion of whitespace on that range (the one \<open>str.split()\<close>, \<open>str.strip()\<close>
  and the regular expression class \<open>\s\<close> share). \<open>isdigit\<close> is the class \<open>\d\<close> on that
  range, where it is \<open>0\<close> to \<open>9\<close>. The patterns of the module are compiled without the
  ASCII flag: on code points from 256 on, \<open>\d\<close> and \<open>int()\<close> also take the other decimal
  digits of Unicode and \<open>\s\<close> its other whitespace. Texts with such characters are
  outside the model, and nothing below is a statement about them.
\<close>

definition whitespace :: "char list" where
  "whitespace = [CHR 0x09, CHR 0x0A, CHR 0x0B, CHR 0x0C, CHR 0x0D, CHR 0x1C, CHR 0x1D,
                 CHR 0x1E, CHR 0x1F, CHR 0x20, CHR 0x85, CHR 0xA0]"

definition digits :: "char list" where
  "digits = ''0123456789''"

definition isspace :: "char \<Rightarrow> bool" where
  "isspace c = (c \<in> set whitespace)"

definition isdigit :: "char \<Rightarrow> bool" where
  "isdigit c = (c \<in> set digits)"

text \<open>\<open>s.split()\<close>: the maximal runs of non-whitespace characters, in order.\<close>

fun split_acc :: "string \<Rightarrow> string \<Rightarrow> string list" where
  "split_acc cur [] = (if cur = [] then [] else [cur])"
| "split_acc cur (c # cs) =
     (if isspace c then (if cur = [] then split_acc [] cs else cur # split_acc [] cs)
      else split_acc (cur @ [c]) cs)"

definition str_split :: "string \<Rightarrow> string list" where
  "str_split s = split_acc [] s"

text \<open>\<open>s.split(sep)\<close> for a one-character separator: empty pieces are kept, and the
  result has at least one piece.\<close>

fun split_sep_acc :: "char \<Rightarrow> string \<Rightarrow> string \<Rightarrow> string list" where
  "split_sep_acc sep cur [] = [cur]"
| "split_sep_acc sep cur (c # cs) =
     (if c = sep then cur # split_sep_acc sep [] cs else split_sep_acc sep (cur @ [c]) cs)"

definition str_split_sep :: "char \<Rightarrow> string \<Rightarrow> string list" where
  "str_split_sep sep s = split_sep_acc sep [] s"

text \<open>\<open>s.strip()\<close> and \<open>s.startswith(p)\<close>.\<close>

definition str_strip :: "string \<Rightarrow> string" where
  "str_strip s = rev (dropWhile isspace (rev (dropWhile isspace s)))"

fun startswith :: "string \<Rightarrow> string \<Rightarrow> bool" where
  "startswith s [] = True"
| "startswith [] (p # ps) = False"
| "startswith (c # cs) (p # ps) = (c = p \<and> startswith cs ps)"

text \<open>\<open>int(s)\<close> on the strings the tag pattern lets through (code points below 256):
  a non-empty string of the digits \<open>0\<close> to \<open>9\<close> is its decimal value, the empty string
  raises \<open>ValueError\<close> (here \<open>None\<close>).\<close>

definition digit_val :: "char \<Rightarrow> nat" where
  "digit_val c = of_char c - 48"

definition py_int :: "string \<Rightarrow> nat option" where
  "py_int s = (if s \<noteq> [] \<and> list_all isdigit s
               then Some (foldl (\<lambda>n c. 10 * n + digit_val c) 0 s) else None)"

section \<open>Regular expressions\<close>

text \<open>
  The classical core of Python's \<open>re\<close> patterns: a literal character, a character class
  \<open>[...]\<close>, a negated class \<open>[^...]\<close>, sequence, alternative and \<open>*\<close>. \<open>Never\<close> (no string)
  and \<open>Eps\<close> (the empty string) close the type under derivatives.
\<close>

datatype rexp =
    Never
  | Eps
  | Chr char
  | In "char list"
  | NotIn "char list"
  | Seq rexp rexp
  | Alt rexp rexp
  | Star rexp

abbreviation Plus1 :: "rexp \<Rightarrow> rexp" where
  "Plus1 r \<equiv> Seq r (Star r)"

abbreviation Opt :: "rexp \<Rightarrow> rexp" where
  "Opt r \<equiv> Alt r Eps"

text \<open>The strings a pattern denotes.\<close>

inductive_set star :: "string set \<Rightarrow> string set" for A :: "string set" where
  star_empty: "[] \<in> star A"
| star_step: "u \<in> A \<Longrightarrow> v \<in> star A \<Longrightarrow> u @ v \<in> star A"

fun lang :: "rexp \<Rightarrow> string set" where
  "lang Never = {}"
| "lang Eps = {[]}"
| "lang (Chr c) = {[c]}"
| "lang (In cs) = {[c] | c. c \<in> set cs}"
| "lang (NotIn cs) = {[c] | c. c \<notin> set cs}"
| "lang (Seq r s) = {u @ v | u v. u \<in> lang r \<and> v \<in> lang s}"
| "lang (Alt r s) = lang r \<union> lang s"
| "lang (Star r) = star (lang r)"

text \<open>Matching by derivatives: \<open>nullable r\<close> says whether \<open>r\<close> matches the empty string,
  \<open>deriv c r\<close> is what remains of \<open>r\<close> after reading \<open>c\<close>.\<close>

fun nullable :: "rexp \<Rightarrow> bool" where
  "nullable Never = False"
| "nullable Eps = True"
| "nullable (Chr c) = False"
| "nullable (In cs) = False"
| "nullable (NotIn cs) = False"
| "nullable (Seq r s) = (nullable r \<and> nullable s)"
| "nullable (Alt r s) = (nullable r \<or> nullable s)"
| "nullable (Star r) = True"

fun deriv :: "char \<Rightarrow> rexp \<Rightarrow> rexp" where
  "deriv c Never = Never"
| "deriv c Eps = Never"
| "deriv c (Chr d) = (if c = d then Eps else Never)"
| "deriv c (In cs) = (if c \<in> set cs then Eps else Never)"
| "deriv c (NotIn cs) = (if c \<in> set cs then Never else Eps)"
| "deriv c (Seq r s) =
     (if nullable r then Alt (Seq (deriv c r) s) (deriv c s) else Seq (deriv c r) s)"
| "deriv c (Alt r s) = Alt (deriv c r) (deriv c s)"
| "deriv c (Star r) = Seq (deriv c r) (Star r)"

text \<open>\<open>pattern.match(s)\<close>: a match starting at offset 0 of \<open>s\<close> and ending anywhere.
  \<open>re_fullmatch\<close> is a match of the whole of \<open>s\<close>.\<close>

fun re_match :: "rexp \<Rightarrow> string \<Rightarrow> bool" where
  "re_match r [] = nullable r"
| "re_match r (c # cs) = (nullable r \<or> re_match (deriv c r) cs)"

fun re_fullmatch :: "rexp \<Rightarrow> string \<Rightarrow> bool" where
  "re_fullmatch r [] = nullable r"
| "re_fullmatch r (c # cs) = re_fullmatch (deriv c r) cs"

section \<open>Exceptions\<close>

text \<open>
  The exceptions the module raises or lets through. \<open>InvalidEntryError start end msg\<close>
  and \<open>ConversionError msg\<close> are the module's own classes (\<open>start\<close> and \<open>end\<close> default
  to 0); the others are Python's built-in exceptions, with their text left out.
\<close>

datatype error =
    InvalidEntryError nat nat string
  | ConversionError string
  | AttributeError
  | ValueError
  | TypeError
  | IndexError
  | StopIteration

section \<open>Conversion functors\<close>

text \<open>
  The converters build their arrays with numpy, which is not part of the package. What
  they use of it is a parameter of the model: how one token converts to a float and to an
  integer (\<open>Inl\<close> carries the text of the exception numpy raises for the token), the
  text of the exception raised when two arrays of the given lengths cannot be added, and
  which shapes with a dimension 0 numpy can give to an empty array (each dimension, and
  the size in bytes that the other dimensions make, must fit its index type, whose width
  depends on the platform).
\<close>

record ('i, 'f) numpy =
  str2int :: "string \<Rightarrow> string + 'i"
  str2float :: "string \<Rightarrow> string + 'f"
  broadcast_msg :: "nat \<Rightarrow> nat \<Rightarrow> string"
  shape_fits :: "nat list \<Rightarrow> bool"

datatype ('i, 'f) pyval = IntV 'i | FloatV 'f | ComplexV 'f 'f | BoolV bool

text \<open>\<open>np.array(values, dtype=...)\<close> over a list of tokens: every token converts, or the
  first one that does not raises.\<close>

fun np_array :: "(string \<Rightarrow> string + 'a) \<Rightarrow> string list \<Rightarrow> string + 'a list" where
  "np_array conv [] = Inr []"
| "np_array conv (v # vs) =
     (case conv v of
        Inl m \<Rightarrow> Inl m
      | Inr x \<Rightarrow> (case np_array conv vs of Inl m \<Rightarrow> Inl m | Inr xs \<Rightarrow> Inr (x # xs)))"

text \<open>The slices \<open>tmp[0::2]\<close> and \<open>tmp[1::2]\<close>.\<close>

fun evens :: "'a list \<Rightarrow> 'a list" where
  "evens [] = []"
| "evens [x] = [x]"
| "evens (x # y # xs) = x # evens xs"

fun odds :: "'a list \<Rightarrow> 'a list" where
  "odds [] = []"
| "odds [x] = []"
| "odds (x # y # xs) = y # odds xs"

text \<open>\<open>re + 1.0j * im\<close> on two one-dimensional arrays: elementwise when the lengths
  agree, an array of length one is stretched to the other's length, and any other pair of
  lengths raises.\<close>

definition np_add_imag :: "('i, 'f) numpy \<Rightarrow> 'f list \<Rightarrow> 'f list \<Rightarrow> string + ('i, 'f) pyval list" where
  "np_add_imag np res ims =
     (if length res = length ims then Inr (map (\<lambda>(r, i). ComplexV r i) (zip res ims))
      else if length ims = 1 then Inr (map (\<lambda>r. ComplexV r (hd ims)) res)
      else if length res = 1 then Inr (map (\<lambda>i. ComplexV (hd res) i) ims)
      else Inl (broadcast_msg np (length res) (length ims)))"

text \<open>The raw data of an entry: one string, or a list of lines.\<close>

datatype rawdata = Str string | Lines "string list"

text \<open>What a converter returns: a flat array, or one value when \<open>nolist\<close> is set.\<close>

datatype 'a converted = Flat "'a list" | Single 'a

text \<open>\<open>Converter.__call__\<close>, with the subclass's \<open>convert\<close> as a parameter.\<close>

definition Converter_call ::
  "bool \<Rightarrow> (string list \<Rightarrow> error + 'a list) \<Rightarrow> rawdata \<Rightarrow> error + 'a converted" where
  "Converter_call nolist convert strvalue =
     (let values = (case strvalue of
                      Lines ls \<Rightarrow> concat (map str_split ls)
                    | Str s \<Rightarrow> str_split s)
      in if nolist \<and> length values > 1 then Inl (ConversionError ''Too many values'')
         else (case convert values of
                 Inl e \<Rightarrow> Inl e
               | Inr result \<Rightarrow>
                   if nolist then (case result of [] \<Rightarrow> Inl IndexError | x # _ \<Rightarrow> Inr (Single x))
                   else Inr (Flat result)))"

definition FloatConverter_convert ::
  "('i, 'f) numpy \<Rightarrow> string list \<Rightarrow> error + ('i, 'f) pyval list" where
  "FloatConverter_convert np values =
     (case np_array (str2float np) values of
        Inl ex \<Rightarrow> Inl (ConversionError (''Unable to convert string to float: '' @ ex))
      | Inr ll \<Rightarrow> Inr (map FloatV ll))"

definition IntConverter_convert ::
  "('i, 'f) numpy \<Rightarrow> string list \<Rightarrow> error + ('i, 'f) pyval list" where
  "IntConverter_convert np values =
     (case np_array (str2int np) values of
        Inl ex \<Rightarrow> Inl (ConversionError (''Unable to convert string to integer: '' @ ex))
      | Inr ll \<Rightarrow> Inr (map IntV ll))"

definition ComplexConverter_convert ::
  "('i, 'f) numpy \<Rightarrow> string list \<Rightarrow> error + ('i, 'f) pyval list" where
  "ComplexConverter_convert np values =
     (case np_array (str2float np) values of
        Inl ex \<Rightarrow> Inl (ConversionError (''Unable to convert string to complex: '' @ ex))
      | Inr tmp \<Rightarrow>
          (case np_add_imag np (evens tmp) (odds tmp) of
             Inl ex \<Rightarrow> Inl (ConversionError (''Unable to convert string to complex: '' @ ex))
           | Inr ll \<Rightarrow> Inr ll))"

text \<open>\<open>ComplexConverter.__call__\<close> overrides the base class's: it calls \<open>split\<close> on its
  argument whatever it is, and a list has no such method.\<close>

definition ComplexConverter_call ::
  "('i, 'f) numpy \<Rightarrow> bool \<Rightarrow> rawdata \<Rightarrow> error + ('i, 'f) pyval converted" where
  "ComplexConverter_call np nolist strvalue =
     (case strvalue of
        Lines ls \<Rightarrow> Inl AttributeError
      | Str s \<Rightarrow>
          (let values = str_split s
           in if length values mod 2 \<noteq> 0
              then Inl (ConversionError ''Complex converter needs even strings'')
              else if nolist \<and> length values \<noteq> 2 then Inl (ConversionError ''Too many values'')
              else (case ComplexConverter_convert np values of
                      Inl e \<Rightarrow> Inl e
                    | Inr result \<Rightarrow>
                        if nolist
                        then (case result of [] \<Rightarrow> Inl IndexError | x # _ \<Rightarrow> Inr (Single x))
                        else Inr (Flat result))))"

fun LogicalConverter_convert :: "string list \<Rightarrow> error + ('i, 'f) pyval list" where
  "LogicalConverter_convert [] = Inr []"
| "LogicalConverter_convert (val # values) =
     (if val = ''T'' \<or> val = ''t''
      then (case LogicalConverter_convert values of
              Inl e \<Rightarrow> Inl e | Inr ll \<Rightarrow> Inr (BoolV True # ll))
      else if val = ''F'' \<or> val = ''f''
      then (case LogicalConverter_convert values of
              Inl e \<Rightarrow> Inl e | Inr ll \<Rightarrow> Inr (BoolV False # ll))
      else Inl (ConversionError (''Unable to convert '' @ [CHR 0x27] @ val @ [CHR 0x27]
                                 @ '' to logical: '')))"

text \<open>The table \<open>_CONVERTERS\<close>: every converter is built with \<open>nolist = False\<close>.\<close>

definition CONVERTERS ::
  "('i, 'f) numpy \<Rightarrow> string \<Rightarrow> (rawdata \<Rightarrow> error + ('i, 'f) pyval converted) option" where
  "CONVERTERS np dtype =
     (if dtype = ''integer'' then Some (Converter_call False (IntConverter_convert np))
      else if dtype = ''real'' then Some (Converter_call False (FloatConverter_convert np))
      else if dtype = ''complex'' then Some (ComplexConverter_call np False)
      else if dtype = ''logical'' then Some (Converter_call False LogicalConverter_convert)
      else None)"

section \<open>Tagged entries\<close>

text \<open>
  The pattern \<open>_PAT_TAGLINE\<close> between its anchors \<open>^\<close> and \<open>$\<close>:
  \<^verbatim>\<open>@(?P<name>[^: ]+)\s*:(?P<dtype>[^:]+):(?P<rank>\d):(?P<shape>(?:\d+(?:,\d+)*)?)\<close>
\<close>

definition PAT_SHAPE :: rexp where
  "PAT_SHAPE = Opt (Seq (Plus1 (In digits)) (Star (Seq (Chr CHR '','') (Plus1 (In digits)))))"

definition PAT_TAGLINE :: rexp where
  "PAT_TAGLINE =
     Seq (Chr CHR ''@'') (Seq (Plus1 (NotIn '': '')) (Seq (Star (In whitespace))
    (Seq (Chr CHR '':'') (Seq (Plus1 (NotIn '':'')) (Seq (Chr CHR '':'')
    (Seq (In digits) (Seq (Chr CHR '':'') PAT_SHAPE)))))))"

text \<open>The pattern with its closing \<open>$\<close>, as a pattern for the whole line: \<open>$\<close> (without
  the multi-line flag) holds at the end of the string and before a newline that is its last
  character.\<close>

definition PAT_TAGLINE_dollar :: rexp where
  "PAT_TAGLINE_dollar = Seq PAT_TAGLINE (Opt (Chr CHR ''\<newline>''))"

text \<open>
  \<open>_PAT_TAGLINE.match(tagline)\<close> and its four groups, read from left to right as the
  greedy match does: the name is the longest run of characters other than \<open>:\<close> and space,
  the dtype runs up to the next \<open>:\<close>, the rank is one digit, and the shape is the rest of
  the line without its final newline, which \<open>PAT_SHAPE\<close> must match.
\<close>

definition name_char :: "char \<Rightarrow> bool" where
  "name_char c = (c \<noteq> CHR '':'' \<and> c \<noteq> CHR '' '')"

definition dtype_char :: "char \<Rightarrow> bool" where
  "dtype_char c = (c \<noteq> CHR '':'')"

definition shape_ok :: "string \<Rightarrow> bool" where
  "shape_ok s = re_fullmatch PAT_SHAPE s"

definition match_shape :: "string \<Rightarrow> string option" where
  "match_shape s =
     (let shp = (if s \<noteq> [] \<and> last s = CHR 0x0A then butlast s else s)
      in if shape_ok shp then Some shp else None)"

definition match_rank :: "string \<Rightarrow> (string \<times> string) option" where
  "match_rank s =
     (case s of
        c1 # d # c2 # rest \<Rightarrow>
          if c1 = CHR '':'' \<and> isdigit d \<and> c2 = CHR '':''
          then (case match_shape rest of None \<Rightarrow> None | Some shp \<Rightarrow> Some ([d], shp))
          else None
      | _ \<Rightarrow> None)"

definition match_dtype :: "string \<Rightarrow> (string \<times> string \<times> string) option" where
  "match_dtype s =
     (let dt = takeWhile dtype_char s
      in if dt = [] then None
         else (case match_rank (dropWhile dtype_char s) of
                 None \<Rightarrow> None
               | Some (rk, shp) \<Rightarrow> Some (dt, rk, shp)))"

definition match_tagline :: "string \<Rightarrow> (string \<times> string \<times> string \<times> string) option" where
  "match_tagline s =
     (case s of
        [] \<Rightarrow> None
      | a # s1 \<Rightarrow>
          if a \<noteq> CHR ''@'' then None
          else (let nm = takeWhile name_char s1
                in if nm = [] then None
                   else (case dropWhile isspace (dropWhile name_char s1) of
                           [] \<Rightarrow> None
                         | b # s2 \<Rightarrow>
                             if b \<noteq> CHR '':'' then None
                             else (case match_dtype s2 of
                                     None \<Rightarrow> None
                                   | Some (dt, rk, shp) \<Rightarrow> Some (nm, dt, rk, shp)))))"

record ('i, 'f) TaggedEntry =
  tagline :: string
  name :: string
  dtype :: string
  rank :: nat
  shape :: "nat list"
  data :: "('i, 'f) pyval list"

text \<open>\<open>except ConversionError as ex: raise InvalidEntryError(msg=str(ex))\<close>; any other
  exception passes through.\<close>

fun reraise_conversion :: "error \<Rightarrow> error" where
  "reraise_conversion (ConversionError m) = InvalidEntryError 0 0 m"
| "reraise_conversion e = e"

text \<open>
  \<open>np.reshape(data, shape)\<close>: the flat data in row-major order under the new shape. The
  shape must hold as many elements as the data has (a scalar is one element), or the call
  raises \<open>ValueError\<close>. A shape without a dimension 0 that holds the elements of an array
  at hand always fits numpy's index type; a shape with a dimension 0 need not (a dimension
  beside the 0 may be too large), and then the call raises \<open>ValueError\<close> too.
\<close>

definition np_reshape :: "('i, 'f) numpy \<Rightarrow> 'a converted \<Rightarrow> nat list \<Rightarrow> error + 'a list" where
  "np_reshape np d shp =
     (let flat = (case d of Flat xs \<Rightarrow> xs | Single x \<Rightarrow> [x])
      in if length flat \<noteq> prod_list shp then Inl ValueError
         else if 0 \<in> set shp \<and> \<not> shape_fits np shp then Inl ValueError
         else Inr flat)"

text \<open>\<open>len(data)\<close>: a single value has no length.\<close>

definition py_len :: "'a converted \<Rightarrow> error + nat" where
  "py_len d = (case d of Flat xs \<Rightarrow> Inr (length xs) | Single x \<Rightarrow> Inl TypeError)"

text \<open>The checks of rank, shape and number of values, then the reshape.\<close>

definition check_shape ::
  "('i, 'f) numpy \<Rightarrow> nat \<Rightarrow> nat list \<Rightarrow> 'a converted \<Rightarrow> error + 'a list" where
  "check_shape np rk shp d =
     (if shp \<noteq> []
      then (if length shp \<noteq> rk then Inl (InvalidEntryError 0 0 ''Incompatible rank and shape'')
            else (case py_len d of
                    Inl e \<Rightarrow> Inl e
                  | Inr n \<Rightarrow>
                      if n \<noteq> foldl (*) (hd shp) (tl shp)
                      then Inl (InvalidEntryError 0 0 ''Invalid nr. of values'')
                      else np_reshape np d shp))
      else if rk \<noteq> 0 then Inl (InvalidEntryError 0 0 ''Incompatible rank and shape'')
      else np_reshape np d shp)"

text \<open>\<open>TaggedEntry.__init__\<close>: \<open>Inl\<close> is the exception that leaves the constructor,
  \<open>Inr\<close> the entry built.\<close>

definition TaggedEntry_init ::
  "('i, 'f) numpy \<Rightarrow> string \<Rightarrow> rawdata \<Rightarrow> error + ('i, 'f) TaggedEntry" where
  "TaggedEntry_init np line raw =
     (case match_tagline line of
        None \<Rightarrow> Inl (InvalidEntryError 0 0 ''Invalid tag format'')
      | Some (nm, dt, rk, shp) \<Rightarrow>
          (case py_int rk of
             None \<Rightarrow> Inl ValueError
           | Some r \<Rightarrow>
               (case (if r > 0 then those (map py_int (str_split_sep CHR '','' shp)) else Some []) of
                  None \<Rightarrow> Inl ValueError
                | Some sh \<Rightarrow>
                    (case CONVERTERS np dt of
                       None \<Rightarrow> Inl (InvalidEntryError 0 0
                                 (''Invalid data dtype '' @ [CHR 0x27] @ dt @ [CHR 0x27]))
                     | Some conv \<Rightarrow>
                         (case conv raw of
                            Inl e \<Rightarrow> Inl (reraise_conversion e)
                          | Inr d \<Rightarrow>
                              (case check_shape np r sh d of
                                 Inl e \<Rightarrow> Inl e
                               | Inr arr \<Rightarrow>
                                   Inr \<lparr>tagline = str_strip line, name = nm, dtype = dt,
                                        rank = r, shape = sh, data = arr\<rparr>))))))"

text \<open>\<open>iscomparable\<close>.\<close>

definition iscomparable :: "('i, 'f) TaggedEntry \<Rightarrow> ('i, 'f) TaggedEntry \<Rightarrow> bool" where
  "iscomparable self other =
     (name other = name self \<and> dtype other = dtype self
      \<and> rank other = rank self \<and> shape other = shape self)"

section \<open>Tagged collections\<close>

text \<open>
  \<open>_names\<close> is a dictionary from names to integers: an association list with one pair
  for each key. \<open>len(self._names)\<close> is the number of its keys.
\<close>

record ('i, 'f) TaggedCollection =
  names :: "(string \<times> nat) list"
  entries :: "('i, 'f) TaggedEntry list"

fun TaggedCollection_extend ::
  "('i, 'f) TaggedCollection \<Rightarrow> ('i, 'f) TaggedEntry list \<Rightarrow> ('i, 'f) TaggedCollection" where
  "TaggedCollection_extend c [] = c"
| "TaggedCollection_extend c (entry # rest) =
     TaggedCollection_extend \<lparr>names = AList.update (name entry) (length (names c)) (names c),
             entries = entries c @ [entry]\<rparr> rest"

definition TaggedCollection_init :: "('i, 'f) TaggedEntry list \<Rightarrow> ('i, 'f) TaggedCollection" where
  "TaggedCollection_init es = TaggedCollection_extend \<lparr>names = [], entries = []\<rparr> es"

definition matching_taglines ::
  "('i, 'f) TaggedCollection \<Rightarrow> rexp \<Rightarrow> ('i, 'f) TaggedEntry list" where
  "matching_taglines c pattern = filter (\<lambda>entry. re_match pattern (tagline entry)) (entries c)"

text \<open>\<open>TaggedCollection.get\<close>: \<open>self._entries[ii]\<close> raises \<open>IndexError\<close> when \<open>ii\<close> is past the end.\<close>

definition TaggedCollection_get :: "('i, 'f) TaggedCollection \<Rightarrow> string \<Rightarrow> error + ('i, 'f) TaggedEntry option" where
  "TaggedCollection_get c nm =
     (case map_of (names c) nm of
        None \<Rightarrow> Inr None
      | Some ii \<Rightarrow> if ii < length (entries c) then Inr (Some (entries c ! ii)) else Inl IndexError)"

text \<open>
  \<open>TaggedCollection.remove\<close>: the result is the exception raised, if any, and the collection as the call
  leaves it. The class has no attribute \<open>_taglines\<close>, so the statement
  \<open>del self._taglines[ii]\<close> raises \<open>AttributeError\<close>.
\<close>

definition TaggedCollection_remove ::
  "('i, 'f) TaggedCollection \<Rightarrow> string \<Rightarrow> (error + unit) \<times> ('i, 'f) TaggedCollection" where
  "TaggedCollection_remove c nm =
     (case map_of (names c) nm of
        None \<Rightarrow> (Inr (), c)
      | Some ii \<Rightarrow>
          (let c1 = c\<lparr>names := AList.delete nm (names c)\<rparr>
           in if ii < length (entries c)
              then (Inl AttributeError,
                    c1\<lparr>entries := take ii (entries c) @ drop (Suc ii) (entries c)\<rparr>)
              else (Inl IndexError, c1)))"

section \<open>The reader\<close>

text \<open>
  The file object is modelled by the text it has not yet given out. \<open>readline\<close> returns
  the next line with its newline (the last line of a file may have none) and the empty
  string at the end of the file. The stream is a text stream: the branch that decodes
  \<open>bytes\<close> is not taken.
\<close>

fun readline :: "string \<Rightarrow> string \<times> string" where
  "readline [] = ([], [])"
| "readline (c # cs) =
     (if c = CHR 0x0A then ([c], cs)
      else (case readline cs of (l, rest) \<Rightarrow> (c # l, rest)))"

lemma readline_length: "readline s = (l, rest) \<Longrightarrow> length l + length rest = length s"
  by (induction s arbitrary: l rest) (auto split: if_splits prod.splits)

lemma readline_measure:
  "(case readline s of (l, rest) \<Rightarrow> length rest + (if l = [] then 0 else 1)) \<le> length s"
proof (cases "readline s")
  case (Pair l rest)
  then have "length l + length rest = length s"
    by (rule readline_length)
  then show ?thesis
    using Pair by (cases l) auto
qed

text \<open>The loop of \<open>_readnext_tagline\<close>, from the state after a \<open>readline\<close>: the lines
  read so far, the line just read, and the file.\<close>

function read_until_tag :: "string list \<Rightarrow> string \<Rightarrow> string \<Rightarrow> (string list \<times> string) \<times> string" where
  "read_until_tag lines line f =
     (if line = [] then ((lines, line), f)
      else if startswith line ''@'' then ((lines, line), f)
      else (case readline f of (line', f') \<Rightarrow> read_until_tag (lines @ [line]) line' f'))"
  by pat_completeness auto
termination
  by (relation "measure (\<lambda>(lines, line, f). length f + (if line = [] then 0 else 1))")
     (auto simp: less_Suc_eq_le readline_measure)

declare read_until_tag.simps [simp del]

definition readnext_tagline :: "string \<Rightarrow> (string list \<times> string) \<times> string" where
  "readnext_tagline f = (case readline f of (line, f') \<Rightarrow> read_until_tag [] line f')"

text \<open>
  The reader's attributes. \<^verbatim>\<open>__next__\<close> stores the running line index under the name
  \<open>_lastagline_ind\<close>, an attribute of its own that exists only once it has been
  assigned, and that nothing reads.
\<close>

record TaggedReader =
  fp :: string
  lasttagline :: string
  lasttagline_ind :: nat
  lastagline_ind :: "nat option"

definition TaggedReader_init :: "string \<Rightarrow> TaggedReader" where
  "TaggedReader_init source =
     (case readnext_tagline source of
        ((dummy, tagl), f') \<Rightarrow>
          \<lparr>fp = f', lasttagline = tagl, lasttagline_ind = length dummy, lastagline_ind = None\<rparr>)"

text \<open>\<open>except InvalidEntryError as ee: raise InvalidEntryError(start, end, msg=ee.msg)\<close>;
  any other exception passes through.\<close>

fun reraise_located :: "nat \<Rightarrow> nat \<Rightarrow> error \<Rightarrow> error" where
  "reraise_located s e (InvalidEntryError _ _ msg) = InvalidEntryError s e msg"
| "reraise_located s e err = err"

text \<open>\<^verbatim>\<open>__next__\<close>: the entry returned or the exception raised, and the reader as the call
  leaves it.\<close>

definition TaggedReader_next ::
  "('i, 'f) numpy \<Rightarrow> TaggedReader \<Rightarrow> (error + ('i, 'f) TaggedEntry) \<times> TaggedReader" where
  "TaggedReader_next np self =
     (if lasttagline self = [] then (Inl StopIteration, self)
      else (case readnext_tagline (fp self) of
              ((datalines, tagl), f') \<Rightarrow>
                (let tagline_ind = lasttagline_ind self + length datalines
                 in (case TaggedEntry_init np (lasttagline self) (Lines datalines) of
                       Inl ee \<Rightarrow>
                         (Inl (reraise_located (lasttagline_ind self + 1) tagline_ind ee),
                          self\<lparr>fp := f'\<rparr>)
                     | Inr result \<Rightarrow>
                         (Inr result,
                          self\<lparr>fp := f', lasttagline := tagl,
                               lastagline_ind := Some tagline_ind\<rparr>)))))"

lemma read_until_tag_measure:
  "read_until_tag lines line f = ((ls, tagl), f') \<Longrightarrow>
   length f' + (if tagl = [] then 0 else 1) \<le> length f + (if line = [] then 0 else 1)"
proof (induction lines line f rule: read_until_tag.induct)
  case (1 lines line f)
  show ?case
  proof (cases "line = [] \<or> startswith line ''@''")
    case True
    with "1.prems" show ?thesis by (subst (asm) read_until_tag.simps) (auto split: if_splits)
  next
    case False
    obtain l2 f2 where rl: "readline f = (l2, f2)" by (cases "readline f")
    with False "1.prems" have "read_until_tag (lines @ [line]) l2 f2 = ((ls, tagl), f')"
      by (subst (asm) read_until_tag.simps) (simp split: if_splits)
    with "1.IH" False rl
    have "length f' + (if tagl = [] then 0 else 1) \<le> length f2 + (if l2 = [] then 0 else 1)"
      by simp
    moreover have "length f2 + (if l2 = [] then 0 else 1) \<le> length f"
      using readline_measure [of f] rl by simp
    ultimately show ?thesis using False by simp
  qed
qed

lemma readnext_tagline_measure:
  "readnext_tagline f = ((ls, tagl), f') \<Longrightarrow> length f' + (if tagl = [] then 0 else 1) \<le> length f"
proof -
  assume a: "readnext_tagline f = ((ls, tagl), f')"
  obtain l f1 where rl: "readline f = (l, f1)" by (cases "readline f")
  with a have "read_until_tag [] l f1 = ((ls, tagl), f')"
    by (simp add: readnext_tagline_def)
  then have "length f' + (if tagl = [] then 0 else 1) \<le> length f1 + (if l = [] then 0 else 1)"
    by (rule read_until_tag_measure)
  moreover have "length f1 + (if l = [] then 0 else 1) \<le> length f"
    using readline_measure [of f] rl by simp
  ultimately show ?thesis by simp
qed

definition reader_measure :: "TaggedReader \<Rightarrow> nat" where
  "reader_measure r = length (fp r) + (if lasttagline r = [] then 0 else 1)"

lemma next_measure:
  "TaggedReader_next np r = (Inr x, r') \<Longrightarrow> reader_measure r' < reader_measure r"
proof -
  assume a: "TaggedReader_next np r = (Inr x, r')"
  obtain ls tagl f' where rn: "readnext_tagline (fp r) = ((ls, tagl), f')"
    by (cases "readnext_tagline (fp r)") auto
  from a have ne: "lasttagline r \<noteq> []"
    by (auto simp: TaggedReader_next_def split: if_splits)
  from a rn ne have "fp r' = f' \<and> lasttagline r' = tagl"
    by (auto simp: TaggedReader_next_def Let_def split: sum.splits)
  with readnext_tagline_measure [OF rn] ne show ?thesis
    by (simp add: reader_measure_def)
qed

text \<open>The \<open>for\<close> loop over a reader (as \<open>TaggedCollection(TaggedReader(fp))\<close> runs it):
  \<^verbatim>\<open>__next__\<close> is called until it raises. The result is the entries returned, the exception
  that ended the loop (\<open>StopIteration\<close> is the normal end) and the reader afterwards.\<close>

function iterate ::
  "('i, 'f) numpy \<Rightarrow> TaggedReader \<Rightarrow> ('i, 'f) TaggedEntry list \<times> error \<times> TaggedReader" where
  "iterate np r =
     (case TaggedReader_next np r of
        (Inl e, r') \<Rightarrow> ([], e, r')
      | (Inr entry, r') \<Rightarrow> (case iterate np r' of (es, e, r'') \<Rightarrow> (entry # es, e, r'')))"
  by pat_completeness auto
termination
  by (relation "measure (\<lambda>(np, r). reader_measure r)") (auto dest: next_measure [OF sym])

declare iterate.simps [simp del]

section \<open>Specification vocabulary\<close>

text \<open>A pattern that matches one given text literally.\<close>

fun literal :: "string \<Rightarrow> rexp" where
  "literal [] = Eps"
| "literal (c # cs) = Seq (Chr c) (literal cs)"

text \<open>
  The header grammar as the specification words it: \<open>@name:dtype:rank:shape\<close> with a
  non-empty name free of \<open>:\<close> and space, a non-negative integer rank of any number of
  digits, and a shape that is a comma-separated list of rank positive integers, present if
  and only if the rank is positive.
\<close>

definition spec_tagline :: "string \<Rightarrow> bool" where
  "spec_tagline s =
     (case s of
        [] \<Rightarrow> False
      | a # rest \<Rightarrow>
          a = CHR ''@'' \<and>
          (case str_split_sep CHR '':'' rest of
             [nm, dt, rk, shp] \<Rightarrow>
               nm \<noteq> [] \<and> CHR '' '' \<notin> set nm \<and>
               (case py_int rk of
                  None \<Rightarrow> False
                | Some r \<Rightarrow>
                    if r = 0 then shp = []
                    else (case those (map py_int (str_split_sep CHR '','' shp)) of
                            None \<Rightarrow> False
                          | Some dims \<Rightarrow> length dims = r \<and> list_all (\<lambda>n. 0 < n) dims))
           | _ \<Rightarrow> False))"

text \<open>An error is a tag-format error when it is an Invalid-Entry error with that message.\<close>

definition tag_format_error :: "error \<Rightarrow> bool" where
  "tag_format_error err = (\<exists>s e. err = InvalidEntryError s e ''Invalid tag format'')"

text \<open>All the lines of a stream: what successive calls of \<open>readline\<close> return until the
  end of the file.\<close>

lemma readline_rest_shorter:
  "s \<noteq> [] \<Longrightarrow> readline s = (l, rest) \<Longrightarrow> length rest < length s"
proof -
  assume ne: "s \<noteq> []" and rl: "readline s = (l, rest)"
  from ne rl have "l \<noteq> []"
    by (cases s) (auto split: if_splits prod.splits)
  with readline_length [OF rl] show ?thesis
    by (cases l) auto
qed

function stream_lines :: "string \<Rightarrow> string list" where
  "stream_lines s =
     (if s = [] then [] else (case readline s of (l, rest) \<Rightarrow> l # stream_lines rest))"
  by pat_completeness auto
termination
  by (relation "measure length") (auto dest: readline_rest_shorter [OF _ sym])

declare stream_lines.simps [simp del]

text \<open>A header line starts with \<open>@\<close>. The blocks of a file are its header lines, each with
  the lines that follow it up to the next header line; the lines before the first header
  belong to no block.\<close>

definition is_header :: "string \<Rightarrow> bool" where
  "is_header l = startswith l ''@''"

abbreviation not_header :: "string \<Rightarrow> bool" where
  "not_header \<equiv> (\<lambda>d. \<not> is_header d)"

fun blocks :: "string list \<Rightarrow> (string \<times> string list) list" where
  "blocks [] = []"
| "blocks (l # ls) =
     (if is_header l then (l, takeWhile not_header ls) # blocks ls else blocks ls)"

text \<open>The entry of a block, as the reader builds it.\<close>

definition build :: "('i, 'f) numpy \<Rightarrow> string \<times> string list \<Rightarrow> error + ('i, 'f) TaggedEntry" where
  "build np b = TaggedEntry_init np (fst b) (Lines (snd b))"

text \<open>The lines a reader has still to deliver: the buffered header, then the rest of the
  stream.\<close>

definition pending_lines :: "string \<Rightarrow> string \<Rightarrow> string list" where
  "pending_lines line f = (if line = [] then [] else line # stream_lines f)"

section \<open>Example values\<close>

text \<open>A logical scalar entry with a given name and value, for the concrete cases below.\<close>

definition ex_entry :: "string \<Rightarrow> bool \<Rightarrow> (int, int) TaggedEntry" where
  "ex_entry nm b =
     \<lparr>tagline = CHR ''@'' # nm @ '':logical:0:'', name = nm, dtype = ''logical'', rank = 0,
      shape = [], data = [BoolV b]\<rparr>"

text \<open>A stand-in for numpy that converts the decimal literals without sign, as integers
  both for \<open>int\<close> and for \<open>float\<close>, and whose index type has 64 bits.\<close>

definition ex_numpy :: "(int, int) numpy" where
  "ex_numpy =
     \<lparr>str2int = (\<lambda>s. case py_int s of None \<Rightarrow> Inl s | Some n \<Rightarrow> Inr (int n)),
      str2float = (\<lambda>s. case py_int s of None \<Rightarrow> Inl s | Some n \<Rightarrow> Inr (int n)),
      broadcast_msg = (\<lambda>n m. ''operands could not be broadcast together''),
      shape_fits = (\<lambda>shp. list_all (\<lambda>d. d < 9223372036854775808) shp)\<rparr>"

text \<open>A file of six lines: one line of prose, a logical scalar and a logical array of
  two values on two lines, the last without a newline.\<close>

definition ex_stream :: string where
  "ex_stream = ''prose\<newline>@a:logical:0:\<newline>T\<newline>@b:logical:1:2\<newline>T\<newline>F''"

section \<open>Evaluating the tag pattern\<close>

lemmas tagline_eval =
  match_tagline_def match_dtype_def match_rank_def match_shape_def shape_ok_def PAT_SHAPE_def
  name_char_def dtype_char_def isspace_def whitespace_def isdigit_def digits_def
  str_split_sep_def

lemmas entry_eval =
  TaggedEntry_init_def py_int_def digit_val_def CONVERTERS_def Converter_call_def
  str_split_def check_shape_def np_reshape_def py_len_def str_strip_def

lemmas reader_eval =
  TaggedReader_init_def TaggedReader_next_def readnext_tagline_def read_until_tag.simps

lemma match_logical_scalar_header:
  "match_tagline ''@a:logical:0:\<newline>'' = Some (''a'', ''logical'', ''0'', [])"
  by (simp add: tagline_eval)

lemma logical_scalar_one_value:
  "TaggedEntry_init np ''@a:logical:0:\<newline>'' (Lines [''T\<newline>''])
   = Inr \<lparr>tagline = ''@a:logical:0:'', name = ''a'', dtype = ''logical'', rank = 0, shape = [],
          data = [BoolV True]\<rparr>"
  by (simp add: tagline_eval entry_eval)

lemma logical_scalar_two_values:
  "TaggedEntry_init np ''@a:logical:0:\<newline>'' (Lines [''T F\<newline>'']) = Inl ValueError"
  by (simp add: tagline_eval entry_eval)

lemma logical_scalar_bad_value:
  "TaggedEntry_init np ''@a:logical:0:\<newline>'' (Lines [''X\<newline>''])
   = Inl (InvalidEntryError 0 0 (''Unable to convert '' @ [CHR 0x27] @ ''X'' @ [CHR 0x27] @ '' to logical: ''))"
  by (simp add: tagline_eval entry_eval)

lemma logical_array_short:
  "TaggedEntry_init np ''@b:logical:1:2\<newline>'' (Lines [''T\<newline>''])
   = Inl (InvalidEntryError 0 0 ''Invalid nr. of values'')"
  by (simp add: tagline_eval entry_eval)

lemma match_complex_header:
  "match_tagline ''@z:complex:1:2\<newline>'' = Some (''z'', ''complex'', ''1'', ''2'')"
  by (simp add: tagline_eval)

section \<open>The collection\<close>

text \<open>
  Claim C2. Every extended entry's name is recorded as mapping to the position at which
  the entry was appended, so that \<open>get\<close> returns the most recently extended entry of that
  name. The code records \<open>len(self._names)\<close>, the number of distinct names, which is the
  position only while no name repeats: after extending with entries named \<open>x\<close>, \<open>x\<close>,
  \<open>y\<close> the name \<open>y\<close> is mapped to position 1 and \<open>get\<close> returns the second entry named
  \<open>x\<close>; after \<open>x\<close>, \<open>x\<close>, \<open>x\<close> the name \<open>x\<close> is mapped to position 1 and \<open>get\<close>
  returns the second entry, not the third.
\<close>

theorem C2_index_is_name_count:
  "TaggedCollection_get
     (TaggedCollection_init [ex_entry ''x'' True, ex_entry ''x'' False, ex_entry ''y'' True]) ''y''
     = Inr (Some (ex_entry ''x'' False))
   \<and> names (TaggedCollection_init
        [ex_entry ''x'' True, ex_entry ''x'' False, ex_entry ''y'' True])
     = [(''x'', 1), (''y'', 1)]
   \<and> TaggedCollection_get
       (TaggedCollection_init [ex_entry ''x'' True, ex_entry ''x'' False, ex_entry ''x'' True]) ''x''
     = Inr (Some (ex_entry ''x'' False))"
  by (simp add: TaggedCollection_get_def TaggedCollection_init_def ex_entry_def)

text \<open>
  Claim C4. For a collection with an entry indexed under a name, \<open>remove\<close> of that name
  terminates normally. In the code it never does: once the name is popped from the index
  the call raises, \<open>AttributeError\<close> at \<open>del self._taglines[ii]\<close> when the recorded
  position is inside the sequence, \<open>IndexError\<close> at \<open>del self._entries[ii]\<close> when it is
  not.
\<close>

theorem C4_remove_raises:
  "map_of (names c) nm = Some ii \<Longrightarrow>
   fst (TaggedCollection_remove c nm)
     = (if ii < length (entries c) then Inl AttributeError else Inl IndexError)"
  by (simp add: TaggedCollection_remove_def Let_def)

theorem C4_remove_raises_witness:
  "map_of (names (TaggedCollection_init [ex_entry ''x'' True])) ''x'' = Some 0
   \<and> fst (TaggedCollection_remove (TaggedCollection_init [ex_entry ''x'' True]) ''x'')
       = Inl AttributeError"
proof -
  have h: "map_of (names (TaggedCollection_init [ex_entry ''x'' True])) ''x'' = Some 0"
    by (simp add: TaggedCollection_init_def ex_entry_def)
  show ?thesis
    using h C4_remove_raises [OF h] by (simp add: TaggedCollection_init_def)
qed

text \<open>
  Claim C8. For a collection built by \<open>extend([e1, e2])\<close> where both entries have the
  same name, \<open>get\<close> of that name returns \<open>e2\<close>, the later entry.
\<close>

theorem C8_get_returns_later_entry:
  "name e1 = name e2 \<Longrightarrow>
   TaggedCollection_get (TaggedCollection_extend (TaggedCollection_init []) [e1, e2]) (name e1)
     = Inr (Some e2)"
  by (simp add: TaggedCollection_get_def TaggedCollection_init_def)

theorem C8_get_returns_later_entry_witness:
  "name (ex_entry ''x'' True) = name (ex_entry ''x'' False)
   \<and> TaggedCollection_get
       (TaggedCollection_extend (TaggedCollection_init [])
          [ex_entry ''x'' True, ex_entry ''x'' False]) ''x''
     = Inr (Some (ex_entry ''x'' False))"
proof -
  have h: "name (ex_entry ''x'' True) = name (ex_entry ''x'' False)"
    by (simp add: ex_entry_def)
  have n: "name (ex_entry ''x'' True) = ''x''"
    by (simp add: ex_entry_def)
  show ?thesis
    using h C8_get_returns_later_entry [OF h] by (simp only: n simp_thms)
qed

section \<open>Decoding complex data\<close>

text \<open>
  Claim C3. For a complex entry whose raw data is a list of lines, decoding concatenates
  the tokens of all lines, fails with a conversion error on an odd count and yields
  \<open>n\<close> values from \<open>2n\<close> tokens. In the code \<open>ComplexConverter.__call__\<close> calls
  \<open>split\<close> on the list itself: whatever the lines hold, the call raises
  \<open>AttributeError\<close>, which is no conversion error, and so does the construction of a
  complex entry from a list of lines.
\<close>

theorem C3_complex_lines_raise:
  "ComplexConverter_call np nolist (Lines ls) = Inl AttributeError
   \<and> TaggedEntry_init np ''@z:complex:1:2\<newline>'' (Lines ls) = Inl AttributeError"
  by (simp add: TaggedEntry_init_def match_complex_header py_int_def isdigit_def digits_def
      digit_val_def str_split_sep_def CONVERTERS_def ComplexConverter_call_def)

section \<open>Entry construction\<close>

text \<open>
  Claim C6. For a header of rank 0, construction succeeds only when the decoded data is
  exactly one value, and any other count makes it fail with an Invalid-Entry error, the
  only error the reader's caller sees. In the code the first half holds and the second
  does not: with rank 0 no check of the number of values is made (the check
  \<open>Invalid nr. of values\<close> is made for a non-empty shape only), and the reshape to the
  empty shape raises \<open>ValueError\<close>, which the reader does not catch.
\<close>

theorem C6_scalar_count_raises_ValueError:
  "match_tagline line = Some (nm, dt, ''0'', shp) \<Longrightarrow> CONVERTERS np dt = Some conv \<Longrightarrow>
   conv raw = Inr (Flat xs) \<Longrightarrow>
   TaggedEntry_init np line raw =
     (if length xs = 1
      then Inr \<lparr>tagline = str_strip line, name = nm, dtype = dt, rank = 0, shape = [], data = xs\<rparr>
      else Inl ValueError)"
  by (simp add: TaggedEntry_init_def py_int_def isdigit_def digits_def digit_val_def
      check_shape_def np_reshape_def)

theorem C6_scalar_count_raises_ValueError_witness:
  "match_tagline ''@a:logical:0:\<newline>'' = Some (''a'', ''logical'', ''0'', [])
   \<and> CONVERTERS ex_numpy ''logical'' = Some (Converter_call False LogicalConverter_convert)
   \<and> Converter_call False LogicalConverter_convert (Lines [''T F\<newline>''])
       = Inr (Flat [BoolV True, BoolV False :: (int, int) pyval])
   \<and> TaggedEntry_init ex_numpy ''@a:logical:0:\<newline>'' (Lines [''T F\<newline>'']) = Inl ValueError"
proof -
  have h1: "match_tagline ''@a:logical:0:\<newline>'' = Some (''a'', ''logical'', ''0'', [])"
    by (rule match_logical_scalar_header)
  have h2: "CONVERTERS ex_numpy ''logical'' = Some (Converter_call False LogicalConverter_convert)"
    by (simp add: CONVERTERS_def)
  have h3: "Converter_call False LogicalConverter_convert (Lines [''T F\<newline>''])
       = Inr (Flat [BoolV True, BoolV False :: (int, int) pyval])"
    by (simp add: Converter_call_def str_split_def isspace_def whitespace_def)
  show ?thesis
    using h1 h2 h3 C6_scalar_count_raises_ValueError [OF h1 h2 h3] by simp
qed

text \<open>A shape with a dimension 0 beside a dimension too large for the index type: the
  number of values agrees with the shape, and the reshape raises.\<close>

lemma zero_dimension_too_large:
  "TaggedEntry_init ex_numpy ''@a:logical:2:0,99999999999999999999'' (Lines []) = Inl ValueError"
  by (simp add: tagline_eval entry_eval ex_numpy_def)

text \<open>The reader passes the \<open>ValueError\<close> on to its caller.\<close>

lemma reader_surfaces_ValueError:
  "TaggedReader_next np (TaggedReader_init ''@a:logical:0:\<newline>T F\<newline>'')
   = (Inl ValueError, \<lparr>fp = [], lasttagline = ''@a:logical:0:\<newline>'', lasttagline_ind = 0,
       lastagline_ind = None\<rparr>)"
  by (simp add: reader_eval logical_scalar_two_values)

section \<open>The reader's line numbers and lookahead\<close>

text \<open>
  Claim C1. When the construction of the k-th entry of a file fails, the Invalid-Entry
  error carries the 1-based range from the header line to the last data line of that
  block, also for the second and later entries. In the code the running index is stored
  under the misspelt name \<open>_lastagline_ind\<close>, so \<open>_lasttagline_ind\<close> stays at the index
  of the first header, whatever the call of \<open>next()\<close>: in the file below the second
  block is lines 3 to 4, and the error carries the range 1 to 1.
\<close>

theorem C1_line_range_of_second_block:
  "TaggedReader_next np
     (TaggedReader_init ''@a:logical:0:\<newline>T\<newline>@b:logical:1:2\<newline>T\<newline>'')
   = (Inr \<lparr>tagline = ''@a:logical:0:'', name = ''a'', dtype = ''logical'', rank = 0,
            shape = [], data = [BoolV True]\<rparr>,
      \<lparr>fp = ''T\<newline>'', lasttagline = ''@b:logical:1:2\<newline>'', lasttagline_ind = 0,
        lastagline_ind = Some 1\<rparr>)
   \<and> TaggedReader_next np
       \<lparr>fp = ''T\<newline>'', lasttagline = ''@b:logical:1:2\<newline>'', lasttagline_ind = 0,
         lastagline_ind = Some 1\<rparr>
     = (Inl (InvalidEntryError 1 1 ''Invalid nr. of values''),
        \<lparr>fp = [], lasttagline = ''@b:logical:1:2\<newline>'', lasttagline_ind = 0,
          lastagline_ind = Some 1\<rparr>)
   \<and> lasttagline_ind (snd (TaggedReader_next np r)) = lasttagline_ind r"
proof -
  have "lasttagline_ind (snd (TaggedReader_next np r)) = lasttagline_ind r"
    by (simp add: TaggedReader_next_def Let_def split: prod.splits sum.splits)
  then show ?thesis
    by (simp add: reader_eval logical_scalar_one_value logical_array_short)
qed

section \<open>Pattern matching\<close>

lemma nullable_lang: "nullable r \<longleftrightarrow> [] \<in> lang r"
  by (induction r) (auto intro: star.intros)

lemma star_cons:
  "c # w \<in> star A \<longleftrightarrow> (\<exists>u v. w = u @ v \<and> c # u \<in> A \<and> v \<in> star A)"
proof
  assume "c # w \<in> star A"
  then show "\<exists>u v. w = u @ v \<and> c # u \<in> A \<and> v \<in> star A"
  proof (induction "c # w" arbitrary: w rule: star.induct)
    case (star_step u v)
    show ?case
    proof (cases u)
      case Nil
      with star_step show ?thesis by simp
    next
      case (Cons d u')
      with star_step.hyps star_step.prems show ?thesis by auto
    qed
  qed
next
  assume "\<exists>u v. w = u @ v \<and> c # u \<in> A \<and> v \<in> star A"
  then obtain u v where "w = u @ v" "c # u \<in> A" "v \<in> star A" by blast
  then have "(c # u) @ v \<in> star A" by (intro star.star_step)
  with \<open>w = u @ v\<close> show "c # w \<in> star A" by simp
qed

lemma deriv_lang: "w \<in> lang (deriv c r) \<longleftrightarrow> c # w \<in> lang r"
proof (induction r arbitrary: w)
  case (Seq r1 r2)
  show ?case
    by (auto simp: Seq nullable_lang Cons_eq_append_conv)
next
  case (Star r)
  show ?case
    by (auto simp: Star star_cons)
qed auto

lemma re_fullmatch_lang: "re_fullmatch r s \<longleftrightarrow> s \<in> lang r"
  by (induction s arbitrary: r) (simp_all add: nullable_lang deriv_lang)

lemma re_match_lang: "re_match r s \<longleftrightarrow> (\<exists>p q. s = p @ q \<and> p \<in> lang r)"
proof (induction s arbitrary: r)
  case Nil
  show ?case by (simp add: nullable_lang)
next
  case (Cons c cs)
  show ?case
  proof
    assume "re_match r (c # cs)"
    then consider "[] \<in> lang r" | "re_match (deriv c r) cs" by (auto simp: nullable_lang)
    then show "\<exists>p q. c # cs = p @ q \<and> p \<in> lang r"
    proof cases
      case 1
      then have "c # cs = [] @ (c # cs) \<and> [] \<in> lang r" by simp
      then show ?thesis by blast
    next
      case 2
      then obtain p q where "cs = p @ q" "p \<in> lang (deriv c r)" using Cons.IH by blast
      then have "c # cs = (c # p) @ q \<and> c # p \<in> lang r" by (simp add: deriv_lang)
      then show ?thesis by blast
    qed
  next
    assume "\<exists>p q. c # cs = p @ q \<and> p \<in> lang r"
    then obtain p q where pq: "c # cs = p @ q" "p \<in> lang r" by blast
    show "re_match r (c # cs)"
    proof (cases p)
      case Nil
      with pq have "[] \<in> lang r" by simp
      then show ?thesis by (simp add: nullable_lang)
    next
      case (Cons d p')
      with pq have "cs = p' @ q" "p' \<in> lang (deriv c r)" by (auto simp: deriv_lang)
      then have "re_match (deriv c r) cs" using Cons.IH by blast
      then show ?thesis by simp
    qed
  qed
qed

lemma literal_lang: "lang (literal s) = {s}"
  by (induction s) auto

lemma startswith_append: "startswith s p \<longleftrightarrow> (\<exists>q. s = p @ q)"
  by (induction s p rule: startswith.induct) auto

text \<open>
  Claim C9. For every collection and every pattern, \<open>matching_taglines\<close> returns, in
  sequence order, exactly the entries whose header text has a match of the pattern
  starting at offset 0 (a prefix of the header is in the pattern's language); for a
  literal pattern these are the entries whose header starts with the text, so \<open>@eigen\<close>
  selects \<open>@eigenlevels_up:real:2:2,15\<close> and not \<open>@foo_eigen:real:0:\<close>.
\<close>

theorem C9_matching_is_match_at_offset_0:
  "matching_taglines c pattern
     = filter (\<lambda>entry. \<exists>p q. tagline entry = p @ q \<and> p \<in> lang pattern) (entries c)
   \<and> matching_taglines c (literal s)
     = filter (\<lambda>entry. startswith (tagline entry) s) (entries c)
   \<and> re_match (literal ''@eigen'') ''@eigenlevels_up:real:2:2,15''
   \<and> \<not> re_match (literal ''@eigen'') ''@foo_eigen:real:0:''"
  by (simp add: matching_taglines_def re_match_lang literal_lang startswith_append)

section \<open>Iterating the reader\<close>

lemma readline_nonempty: "s \<noteq> [] \<Longrightarrow> fst (readline s) \<noteq> []"
  by (cases s) (auto split: if_splits prod.splits)

lemma readline_empty_iff: "fst (readline s) = [] \<longleftrightarrow> s = []"
  using readline_nonempty [of s] by (cases s) auto

lemma readline_empty_rest: "readline s = ([], rest) \<Longrightarrow> rest = []"
  using readline_empty_iff [of s] by (cases s) auto

lemma stream_lines_readline:
  "readline s = (l, rest) \<Longrightarrow> stream_lines s = (if l = [] then [] else l # stream_lines rest)"
  using readline_empty_iff [of s]
  by (subst stream_lines.simps) auto

lemma blocks_dropWhile: "blocks (dropWhile not_header ls) = blocks ls"
  by (induction ls) auto

lemma blocks_headers: "map fst (blocks ls) = filter is_header ls"
  by (induction ls) auto

lemma read_until_tag_lines:
  "read_until_tag acc line f = ((ls, tagl), f') \<Longrightarrow>
   ls = acc @ takeWhile not_header (pending_lines line f)
   \<and> pending_lines tagl f' = dropWhile not_header (pending_lines line f)"
proof (induction acc line f rule: read_until_tag.induct)
  case (1 lines line f)
  show ?case
  proof (cases "line = [] \<or> startswith line ''@''")
    case True
    with "1.prems" show ?thesis
      by (subst (asm) read_until_tag.simps) (auto simp: pending_lines_def is_header_def)
  next
    case False
    obtain l2 f2 where rl: "readline f = (l2, f2)" by (cases "readline f")
    with False "1.prems" have "read_until_tag (lines @ [line]) l2 f2 = ((ls, tagl), f')"
      by (subst (asm) read_until_tag.simps) simp
    with "1.IH" False rl
    have ih: "ls = (lines @ [line]) @ takeWhile not_header (pending_lines l2 f2)
      \<and> pending_lines tagl f' = dropWhile not_header (pending_lines l2 f2)"
      by simp
    have "pending_lines l2 f2 = stream_lines f"
      using rl by (simp add: pending_lines_def stream_lines_readline)
    with ih False show ?thesis
      by (simp add: pending_lines_def is_header_def)
  qed
qed

lemma readnext_tagline_lines:
  assumes "readnext_tagline f = ((ls, tagl), f')"
  shows "ls = takeWhile not_header (stream_lines f)"
    and "pending_lines tagl f' = dropWhile not_header (stream_lines f)"
proof -
  obtain l f1 where rl: "readline f = (l, f1)" by (cases "readline f")
  with assms have "read_until_tag [] l f1 = ((ls, tagl), f')"
    by (simp add: readnext_tagline_def)
  from read_until_tag_lines [OF this]
  have "ls = takeWhile not_header (pending_lines l f1)"
    and "pending_lines tagl f' = dropWhile not_header (pending_lines l f1)"
    by simp_all
  moreover have "pending_lines l f1 = stream_lines f"
    using rl by (simp add: pending_lines_def stream_lines_readline)
  ultimately show "ls = takeWhile not_header (stream_lines f)"
    and "pending_lines tagl f' = dropWhile not_header (stream_lines f)"
    by simp_all
qed

lemma pending_header: "pending_lines tagl f' = dropWhile not_header ls \<Longrightarrow> tagl \<noteq> [] \<Longrightarrow> is_header tagl"
proof -
  assume a: "pending_lines tagl f' = dropWhile not_header ls" and ne: "tagl \<noteq> []"
  then have "dropWhile not_header ls = tagl # stream_lines f'" by (simp add: pending_lines_def)
  then have "\<not> not_header tagl" using hd_dropWhile [of not_header ls] by (metis list.sel(1) list.distinct(1))
  then show ?thesis by simp
qed

lemma stream_lines_empty: "stream_lines [] = []"
  by (simp add: stream_lines.simps)

lemma read_until_tag_eof:
  "(line = [] \<longrightarrow> f = []) \<Longrightarrow> read_until_tag acc line f = ((ls, []), f') \<Longrightarrow> f' = []"
proof (induction acc line f rule: read_until_tag.induct)
  case (1 lines line f)
  show ?case
  proof (cases "line = [] \<or> startswith line ''@''")
    case True
    from "1.prems"(2) True have "((lines, line), f) = ((ls, []), f')"
      by (subst (asm) read_until_tag.simps) (auto split: if_splits)
    with "1.prems"(1) show ?thesis by simp
  next
    case False
    obtain l2 f2 where rl: "readline f = (l2, f2)" by (cases "readline f")
    with False "1.prems"(2) have "read_until_tag (lines @ [line]) l2 f2 = ((ls, []), f')"
      by (subst (asm) read_until_tag.simps) simp
    moreover have "l2 = [] \<longrightarrow> f2 = []"
      using rl readline_empty_rest by blast
    ultimately show ?thesis
      using "1.IH" False rl by simp
  qed
qed

lemma readnext_tagline_eof: "readnext_tagline f = ((ls, []), f') \<Longrightarrow> f' = []"
proof -
  assume a: "readnext_tagline f = ((ls, []), f')"
  obtain l f1 where rl: "readline f = (l, f1)" by (cases "readline f")
  with a have "read_until_tag [] l f1 = ((ls, []), f')"
    by (simp add: readnext_tagline_def)
  moreover have "l = [] \<longrightarrow> f1 = []"
    using rl readline_empty_rest by blast
  ultimately show ?thesis
    using read_until_tag_eof by blast
qed

lemma readnext_tagline_rest:
  assumes "readnext_tagline f = ((ls, tagl), f')"
  shows "stream_lines f' = drop 1 (dropWhile not_header (stream_lines f))"
proof (cases "tagl = []")
  case True
  with assms have "f' = []" using readnext_tagline_eof by blast
  moreover have d: "dropWhile not_header (stream_lines f) = []"
    using readnext_tagline_lines(2) [OF assms] True by (simp add: pending_lines_def)
  ultimately show ?thesis by (simp only: d stream_lines_empty drop_Nil)
next
  case False
  then have "dropWhile not_header (stream_lines f) = tagl # stream_lines f'"
    using readnext_tagline_lines(2) [OF assms] by (simp add: pending_lines_def)
  then show ?thesis by simp
qed

lemma iterate_blocks:
  assumes "lasttagline r \<noteq> [] \<longrightarrow> is_header (lasttagline r)"
    and "list_all (\<lambda>b. \<not> isl (build np b)) (blocks (pending_lines (lasttagline r) (fp r)))"
  shows "map Inr (fst (iterate np r)) = map (build np) (blocks (pending_lines (lasttagline r) (fp r)))
         \<and> fst (snd (iterate np r)) = StopIteration"
  using assms
proof (induction np r rule: iterate.induct)
  case (1 np r)
  show ?case
  proof (cases "lasttagline r = []")
    case True
    then show ?thesis
      by (subst iterate.simps, subst iterate.simps)
         (simp add: TaggedReader_next_def pending_lines_def)
  next
    case False
    with "1.prems" have hd: "is_header (lasttagline r)" by simp
    obtain ls tagl f' where rn: "readnext_tagline (fp r) = ((ls, tagl), f')"
      by (cases "readnext_tagline (fp r)") auto
    note L = readnext_tagline_lines [OF rn]
    have bl: "blocks (pending_lines (lasttagline r) (fp r))
      = (lasttagline r, ls) # blocks (pending_lines tagl f')"
      using False hd L by (simp add: pending_lines_def blocks_dropWhile)
    with "1.prems"(2) obtain x where x: "TaggedEntry_init np (lasttagline r) (Lines ls) = Inr x"
      by (cases "TaggedEntry_init np (lasttagline r) (Lines ls)") (auto simp: build_def)
    define r' where "r' = r\<lparr>fp := f', lasttagline := tagl,
      lastagline_ind := Some (lasttagline_ind r + length ls)\<rparr>"
    have nx: "TaggedReader_next np r = (Inr x, r')"
      using False rn x by (simp add: TaggedReader_next_def r'_def)
    have p1: "lasttagline r' \<noteq> [] \<longrightarrow> is_header (lasttagline r')"
      using pending_header [OF L(2)] by (simp add: r'_def)
    have p2: "list_all (\<lambda>b. \<not> isl (build np b)) (blocks (pending_lines (lasttagline r') (fp r')))"
      using "1.prems"(2) bl by (simp add: r'_def)
    have ih: "map Inr (fst (iterate np r')) = map (build np) (blocks (pending_lines (lasttagline r') (fp r')))
         \<and> fst (snd (iterate np r')) = StopIteration"
      using "1.IH" [OF nx [symmetric] refl p1 p2] .
    have it: "iterate np r = (case iterate np r' of (es, e, r'') \<Rightarrow> (x # es, e, r''))"
      by (subst iterate.simps) (simp add: nx)
    obtain es e r'' where ir: "iterate np r' = (es, e, r'')"
      by (cases "iterate np r'") auto
    have lr: "lasttagline r' = tagl" "fp r' = f'"
      by (simp_all add: r'_def)
    show ?thesis
      using ih bl x by (simp add: it ir lr build_def)
  qed
qed


lemma init_pending:
  "pending_lines (lasttagline (TaggedReader_init s)) (fp (TaggedReader_init s))
   = dropWhile not_header (stream_lines s)"
  and init_header:
  "lasttagline (TaggedReader_init s) \<noteq> [] \<longrightarrow> is_header (lasttagline (TaggedReader_init s))"
  and init_ind:
  "lasttagline_ind (TaggedReader_init s) = length (takeWhile not_header (stream_lines s))"
proof -
  obtain ls tagl f' where rn: "readnext_tagline s = ((ls, tagl), f')"
    by (cases "readnext_tagline s") auto
  note L = readnext_tagline_lines [OF rn]
  have i: "TaggedReader_init s
    = \<lparr>fp = f', lasttagline = tagl, lasttagline_ind = length ls, lastagline_ind = None\<rparr>"
    by (simp add: TaggedReader_init_def rn)
  show "pending_lines (lasttagline (TaggedReader_init s)) (fp (TaggedReader_init s))
   = dropWhile not_header (stream_lines s)"
    using L by (simp add: i)
  show "lasttagline (TaggedReader_init s) \<noteq> [] \<longrightarrow> is_header (lasttagline (TaggedReader_init s))"
    using pending_header [OF L(2)] by (simp add: i)
  show "lasttagline_ind (TaggedReader_init s) = length (takeWhile not_header (stream_lines s))"
    using L by (simp add: i)
qed

lemma no_header_iff: "dropWhile not_header ls = [] \<longleftrightarrow> filter is_header ls = []"
  by (induction ls) auto

lemma ex_stream_lines:
  "stream_lines ex_stream
   = [''prose\<newline>'', ''@a:logical:0:\<newline>'', ''T\<newline>'', ''@b:logical:1:2\<newline>'', ''T\<newline>'', ''F'']"
  by (simp add: ex_stream_def stream_lines.simps)

lemma ex_blocks:
  "blocks (stream_lines ex_stream)
   = [(''@a:logical:0:\<newline>'', [''T\<newline>'']), (''@b:logical:1:2\<newline>'', [''T\<newline>'', ''F''])]"
  by (simp add: ex_stream_lines is_header_def)

lemma logical_array_two:
  "TaggedEntry_init np ''@b:logical:1:2\<newline>'' (Lines [''T\<newline>'', ''F''])
   = Inr \<lparr>tagline = ''@b:logical:1:2'', name = ''b'', dtype = ''logical'', rank = 1, shape = [2],
          data = [BoolV True, BoolV False]\<rparr>"
  by (simp add: tagline_eval entry_eval)

text \<open>
  Claim C7. Over a stream whose blocks all form valid entries, iterating the reader
  yields one entry for each header line, in file order, and then ends normally with
  \<open>StopIteration\<close>; over a stream without header line it yields nothing and is exhausted
  from its construction. The lines before the first header are in no block.
\<close>

theorem C7_one_entry_per_header:
  assumes "list_all (\<lambda>b. \<not> isl (build np b)) (blocks (stream_lines s))"
  shows "map Inr (fst (iterate np (TaggedReader_init s))) = map (build np) (blocks (stream_lines s))
    \<and> fst (snd (iterate np (TaggedReader_init s))) = StopIteration
    \<and> map fst (blocks (stream_lines s)) = filter is_header (stream_lines s)
    \<and> length (fst (iterate np (TaggedReader_init s))) = length (filter is_header (stream_lines s))
    \<and> (lasttagline (TaggedReader_init s) = []) = (filter is_header (stream_lines s) = [])"
proof -
  let ?r = "TaggedReader_init s"
  have b: "blocks (pending_lines (lasttagline ?r) (fp ?r)) = blocks (stream_lines s)"
    by (simp add: init_pending blocks_dropWhile)
  have it: "map Inr (fst (iterate np ?r)) = map (build np) (blocks (stream_lines s))
    \<and> fst (snd (iterate np ?r)) = StopIteration"
    using iterate_blocks [OF init_header, of np s] assms by (simp add: b)
  then have "length (map Inr (fst (iterate np ?r)) :: (error + ('a, 'b) TaggedEntry) list)
    = length (map fst (blocks (stream_lines s)))"
    by simp
  then have len: "length (fst (iterate np ?r)) = length (filter is_header (stream_lines s))"
    by (simp add: blocks_headers)
  have "(lasttagline ?r = []) = (pending_lines (lasttagline ?r) (fp ?r) = [])"
    by (simp add: pending_lines_def)
  then have "(lasttagline ?r = []) = (dropWhile not_header (stream_lines s) = [])"
    by (simp only: init_pending)
  then have z: "(lasttagline ?r = []) = (filter is_header (stream_lines s) = [])"
    by (simp only: no_header_iff)
  show ?thesis
    using it len z by (simp add: blocks_headers)
qed

theorem C7_one_entry_per_header_witness:
  "list_all (\<lambda>b. \<not> isl (build ex_numpy b)) (blocks (stream_lines ex_stream))
   \<and> fst (iterate ex_numpy (TaggedReader_init ex_stream))
     = [\<lparr>tagline = ''@a:logical:0:'', name = ''a'', dtype = ''logical'', rank = 0, shape = [],
          data = [BoolV True]\<rparr>,
        \<lparr>tagline = ''@b:logical:1:2'', name = ''b'', dtype = ''logical'', rank = 1, shape = [2],
          data = [BoolV True, BoolV False]\<rparr>]
   \<and> fst (snd (iterate ex_numpy (TaggedReader_init ex_stream))) = StopIteration
   \<and> filter is_header (stream_lines ex_stream) = [''@a:logical:0:\<newline>'', ''@b:logical:1:2\<newline>'']
   \<and> filter is_header (stream_lines ''prose\<newline>T\<newline>'') = []
   \<and> fst (iterate ex_numpy (TaggedReader_init ''prose\<newline>T\<newline>'')) = []
   \<and> fst (snd (iterate ex_numpy (TaggedReader_init ''prose\<newline>T\<newline>''))) = StopIteration
   \<and> lasttagline (TaggedReader_init ''prose\<newline>T\<newline>'') = []"
proof -
  have l0: "stream_lines ''prose\<newline>T\<newline>'' = [''prose\<newline>'', ''T\<newline>'']"
    by (simp add: stream_lines.simps)
  have h0: "list_all (\<lambda>b. \<not> isl (build ex_numpy b)) (blocks (stream_lines ''prose\<newline>T\<newline>''))"
    by (simp add: l0 is_header_def)
  have z: "filter is_header (stream_lines ''prose\<newline>T\<newline>'') = []
   \<and> fst (iterate ex_numpy (TaggedReader_init ''prose\<newline>T\<newline>'')) = []
   \<and> fst (snd (iterate ex_numpy (TaggedReader_init ''prose\<newline>T\<newline>''))) = StopIteration
   \<and> lasttagline (TaggedReader_init ''prose\<newline>T\<newline>'') = []"
    using C7_one_entry_per_header [OF h0] by (simp add: l0 is_header_def)
  have h: "list_all (\<lambda>b. \<not> isl (build ex_numpy b)) (blocks (stream_lines ex_stream))"
    by (simp add: ex_blocks build_def logical_scalar_one_value logical_array_two)
  have f: "filter is_header (stream_lines ex_stream) = [''@a:logical:0:\<newline>'', ''@b:logical:1:2\<newline>'']"
    by (simp add: ex_stream_lines is_header_def)
  have "fst (iterate ex_numpy (TaggedReader_init ex_stream))
     = [\<lparr>tagline = ''@a:logical:0:'', name = ''a'', dtype = ''logical'', rank = 0, shape = [],
          data = [BoolV True]\<rparr>,
        \<lparr>tagline = ''@b:logical:1:2'', name = ''b'', dtype = ''logical'', rank = 1, shape = [2],
          data = [BoolV True, BoolV False]\<rparr>]
   \<and> fst (snd (iterate ex_numpy (TaggedReader_init ex_stream))) = StopIteration"
    using C7_one_entry_per_header [OF h]
    by (auto simp: ex_blocks build_def logical_scalar_one_value logical_array_two
        Cons_eq_map_conv)
  with h f z show ?thesis
    by blast
qed

section \<open>The reader after a failed entry\<close>

text \<open>
  Claim C10. If \<open>next()\<close> raises an Invalid-Entry error, the buffered header and its line
  number are left as they were, while the stream has been read through the next header
  line (what remains of it are the lines after that header); a subsequent \<open>next()\<close>
  therefore builds its entry from the failed block's header and the data lines of the
  block that follows.
\<close>

theorem C10_failed_next_keeps_lookahead:
  assumes "TaggedReader_next np r = (Inl (InvalidEntryError s e m), r')"
  shows "lasttagline r' = lasttagline r \<and> lasttagline_ind r' = lasttagline_ind r
         \<and> fp r' = snd (readnext_tagline (fp r))
         \<and> stream_lines (fp r') = drop 1 (dropWhile not_header (stream_lines (fp r)))
         \<and> fst (TaggedReader_next np r')
             = (case readnext_tagline (snd (readnext_tagline (fp r))) of
                  ((datalines, tagl), f') \<Rightarrow>
                    (case TaggedEntry_init np (lasttagline r) (Lines datalines) of
                       Inl ee \<Rightarrow> Inl (reraise_located (lasttagline_ind r + 1)
                                        (lasttagline_ind r + length datalines) ee)
                     | Inr result \<Rightarrow> Inr result))"
proof -
  from assms have ne: "lasttagline r \<noteq> []"
    by (auto simp: TaggedReader_next_def split: if_splits)
  obtain ls tagl f1 where rn: "readnext_tagline (fp r) = ((ls, tagl), f1)"
    by (cases "readnext_tagline (fp r)") auto
  from assms ne rn have r': "r' = r\<lparr>fp := f1\<rparr>"
    by (auto simp: TaggedReader_next_def Let_def split: sum.splits)
  obtain ls2 tagl2 f2 where rn2: "readnext_tagline f1 = ((ls2, tagl2), f2)"
    by (cases "readnext_tagline f1") auto
  have "stream_lines (fp r') = drop 1 (dropWhile not_header (stream_lines (fp r)))"
    using readnext_tagline_rest [OF rn] by (simp add: r')
  then show ?thesis
    using ne rn rn2 by (simp add: r' TaggedReader_next_def Let_def split: sum.splits)
qed

theorem C10_failed_next_keeps_lookahead_witness:
  "TaggedReader_next ex_numpy
     (TaggedReader_init ''@a:logical:0:\<newline>X\<newline>@b:logical:0:\<newline>T\<newline>'')
   = (Inl (InvalidEntryError 1 1 (''Unable to convert '' @ [CHR 0x27] @ ''X'' @ [CHR 0x27] @ '' to logical: '')),
      \<lparr>fp = ''T\<newline>'', lasttagline = ''@a:logical:0:\<newline>'', lasttagline_ind = 0,
        lastagline_ind = None\<rparr>)
   \<and> fst (TaggedReader_next ex_numpy
       \<lparr>fp = ''T\<newline>'', lasttagline = ''@a:logical:0:\<newline>'', lasttagline_ind = 0,
         lastagline_ind = None\<rparr>)
     = Inr \<lparr>tagline = ''@a:logical:0:'', name = ''a'', dtype = ''logical'', rank = 0,
            shape = [], data = [BoolV True]\<rparr>"
proof -
  have h: "TaggedReader_next ex_numpy
     (TaggedReader_init ''@a:logical:0:\<newline>X\<newline>@b:logical:0:\<newline>T\<newline>'')
   = (Inl (InvalidEntryError 1 1 (''Unable to convert '' @ [CHR 0x27] @ ''X'' @ [CHR 0x27] @ '' to logical: '')),
      \<lparr>fp = ''T\<newline>'', lasttagline = ''@a:logical:0:\<newline>'', lasttagline_ind = 0,
        lastagline_ind = None\<rparr>)"
    by (simp add: reader_eval logical_scalar_bad_value)
  have i: "TaggedReader_init ''@a:logical:0:\<newline>X\<newline>@b:logical:0:\<newline>T\<newline>''
    = \<lparr>fp = ''X\<newline>@b:logical:0:\<newline>T\<newline>'', lasttagline = ''@a:logical:0:\<newline>'',
       lasttagline_ind = 0, lastagline_ind = None\<rparr>"
    by (simp add: reader_eval)
  show ?thesis
    using h C10_failed_next_keeps_lookahead [OF h]
    by (simp add: i readnext_tagline_def read_until_tag.simps logical_scalar_one_value)
qed

section \<open>The tag pattern\<close>

lemma star_class: "w \<in> star {[c] | c. P c} \<longleftrightarrow> list_all P w"
proof
  assume "w \<in> star {[c] | c. P c}"
  then show "list_all P w"
    by (induction rule: star.induct) auto
next
  assume "list_all P w"
  then show "w \<in> star {[c] | c. P c}"
  proof (induction w)
    case Nil
    show ?case by (rule star.star_empty)
  next
    case (Cons c w)
    then have "[c] \<in> {[c] | c. P c}" and "w \<in> star {[c] | c. P c}" by auto
    then have "[c] @ w \<in> star {[c] | c. P c}" by (rule star.star_step)
    then show ?case by simp
  qed
qed

lemma single_concat:
  "w \<in> {u @ v | u v. u \<in> {[c] | c. P c} \<and> v \<in> B} \<longleftrightarrow> (\<exists>c v. w = c # v \<and> P c \<and> v \<in> B)"
proof
  assume "w \<in> {u @ v | u v. u \<in> {[c] | c. P c} \<and> v \<in> B}"
  then obtain u v where "w = u @ v" "u \<in> {[c] | c. P c}" "v \<in> B" by blast
  then obtain c where "w = c # v" "P c" "v \<in> B" by auto
  then show "\<exists>c v. w = c # v \<and> P c \<and> v \<in> B" by blast
next
  assume "\<exists>c v. w = c # v \<and> P c \<and> v \<in> B"
  then obtain c v where "w = [c] @ v" "P c" "v \<in> B" by auto
  then have "w = [c] @ v \<and> [c] \<in> {[c] | c. P c} \<and> v \<in> B" by blast
  then show "w \<in> {u @ v | u v. u \<in> {[c] | c. P c} \<and> v \<in> B}" by blast
qed

lemma seq_Chr: "w \<in> lang (Seq (Chr c) R) \<longleftrightarrow> (\<exists>v. w = c # v \<and> v \<in> lang R)"
  using single_concat [of w "\<lambda>d. d = c" "lang R"] by simp

lemma seq_In: "w \<in> lang (Seq (In cs) R) \<longleftrightarrow> (\<exists>c v. w = c # v \<and> c \<in> set cs \<and> v \<in> lang R)"
  using single_concat [of w "\<lambda>d. d \<in> set cs" "lang R"] by simp

lemma seq_NotIn: "w \<in> lang (Seq (NotIn cs) R) \<longleftrightarrow> (\<exists>c v. w = c # v \<and> c \<notin> set cs \<and> v \<in> lang R)"
  using single_concat [of w "\<lambda>d. d \<notin> set cs" "lang R"] by simp

lemma lang_star_In: "w \<in> lang (Star (In cs)) \<longleftrightarrow> list_all (\<lambda>c. c \<in> set cs) w"
  by (simp add: star_class)

lemma lang_star_NotIn: "w \<in> lang (Star (NotIn cs)) \<longleftrightarrow> list_all (\<lambda>c. c \<notin> set cs) w"
  by (simp add: star_class)

lemma lang_plus_In: "w \<in> lang (Plus1 (In cs)) \<longleftrightarrow> w \<noteq> [] \<and> list_all (\<lambda>c. c \<in> set cs) w"
  unfolding seq_In lang_star_In by (cases w) auto

lemma lang_plus_NotIn: "w \<in> lang (Plus1 (NotIn cs)) \<longleftrightarrow> w \<noteq> [] \<and> list_all (\<lambda>c. c \<notin> set cs) w"
  unfolding seq_NotIn lang_star_NotIn by (cases w) auto


lemma star_chars: "v \<in> star A \<Longrightarrow> (\<And>u. u \<in> A \<Longrightarrow> set u \<subseteq> S) \<Longrightarrow> set v \<subseteq> S"
  by (induction rule: star.induct) auto

lemma shape_chars:
  assumes "w \<in> lang PAT_SHAPE"
  shows "set w \<subseteq> set digits \<union> {CHR '',''}"
proof -
  let ?D = "Plus1 (In digits)"
  let ?S = "set digits \<union> {CHR '',''}"
  have piece: "set x \<subseteq> ?S" if "x \<in> lang (Seq (Chr CHR '','') ?D)" for x
  proof -
    from that obtain y where "x = CHR '','' # y" "y \<in> lang ?D"
      unfolding seq_Chr by blast
    then show ?thesis
      unfolding lang_plus_In by (auto simp: list_all_iff)
  qed
  from assms have "w = [] \<or> w \<in> lang (Seq ?D (Star (Seq (Chr CHR '','') ?D)))"
    unfolding PAT_SHAPE_def lang.simps(7) lang.simps(2) by blast
  then show ?thesis
  proof
    assume "w = []"
    then show ?thesis by simp
  next
    assume "w \<in> lang (Seq ?D (Star (Seq (Chr CHR '','') ?D)))"
    then have "w \<in> {u @ v | u v. u \<in> lang ?D \<and> v \<in> lang (Star (Seq (Chr CHR '','') ?D))}"
      by (simp only: lang.simps(6))
    then obtain u v where w: "w = u @ v" and u: "u \<in> lang ?D"
      and v0: "v \<in> lang (Star (Seq (Chr CHR '','') ?D))"
      by blast
    from v0 have v: "v \<in> star (lang (Seq (Chr CHR '','') ?D))"
      by (simp only: lang.simps(8))
    have "set u \<subseteq> ?S"
      using u unfolding lang_plus_In by (auto simp: list_all_iff)
    moreover have "set v \<subseteq> ?S"
      using v piece by (rule star_chars)
    ultimately show ?thesis
      using w by simp
  qed
qed

lemma shape_no_newline: "w \<in> lang PAT_SHAPE \<Longrightarrow> CHR ''\<newline>'' \<notin> set w"
  using shape_chars [of w] by (auto simp: digits_def)

lemma match_shape_iff:
  "match_shape rest \<noteq> None \<longleftrightarrow>
   rest \<in> lang PAT_SHAPE \<or> (\<exists>p. rest = p @ [CHR ''\<newline>''] \<and> p \<in> lang PAT_SHAPE)"
proof (cases "rest \<noteq> [] \<and> last rest = CHR ''\<newline>''")
  case True
  then have r: "rest = butlast rest @ [CHR ''\<newline>'']"
    using append_butlast_last_id [of rest] by simp
  have "rest \<notin> lang PAT_SHAPE"
    using shape_no_newline [of rest] True by (metis last_in_set)
  moreover have "(\<exists>p. rest = p @ [CHR ''\<newline>''] \<and> p \<in> lang PAT_SHAPE) \<longleftrightarrow> butlast rest \<in> lang PAT_SHAPE"
    using r by (metis butlast_snoc)
  ultimately show ?thesis
    using True by (simp add: match_shape_def shape_ok_def re_fullmatch_lang Let_def)
next
  case False
  then have "\<not> (\<exists>p. rest = p @ [CHR ''\<newline>''] \<and> p \<in> lang PAT_SHAPE)"
    by auto
  with False show ?thesis
    by (auto simp: match_shape_def shape_ok_def re_fullmatch_lang Let_def)
qed


lemma plus_NotIn_seq:
  "w \<in> lang (Seq (Plus1 (NotIn cs)) R) \<longleftrightarrow>
   (\<exists>u v. w = u @ v \<and> u \<noteq> [] \<and> list_all (\<lambda>c. c \<notin> set cs) u \<and> v \<in> lang R)"
proof -
  have "w \<in> lang (Seq (Plus1 (NotIn cs)) R) \<longleftrightarrow>
    (\<exists>u v. w = u @ v \<and> u \<in> lang (Plus1 (NotIn cs)) \<and> v \<in> lang R)"
    by (simp only: lang.simps(6)) blast
  then show ?thesis
    by (simp only: lang_plus_NotIn conj_assoc)
qed

lemma star_In_seq:
  "w \<in> lang (Seq (Star (In cs)) R) \<longleftrightarrow>
   (\<exists>u v. w = u @ v \<and> list_all (\<lambda>c. c \<in> set cs) u \<and> v \<in> lang R)"
proof -
  have "w \<in> lang (Seq (Star (In cs)) R) \<longleftrightarrow>
    (\<exists>u v. w = u @ v \<and> u \<in> lang (Star (In cs)) \<and> v \<in> lang R)"
    by (simp only: lang.simps(6)) blast
  then show ?thesis
    by (simp only: lang_star_In conj_assoc)
qed

lemma name_char_set: "(c \<notin> set '': '') = name_char c"
  by (auto simp: name_char_def)

lemma dtype_char_set: "(c \<notin> set '':'') = dtype_char c"
  by (auto simp: dtype_char_def)

lemma isspace_set: "(c \<in> set whitespace) = isspace c"
  by (simp add: isspace_def)

lemma isdigit_set: "(c \<in> set digits) = isdigit c"
  by (simp add: isdigit_def)

lemma lang_tagline_iff:
  "s \<in> lang PAT_TAGLINE \<longleftrightarrow>
   (\<exists>nm ws dt d shp.
      s = CHR ''@'' # nm @ ws @ CHR '':'' # dt @ CHR '':'' # d # CHR '':'' # shp
      \<and> nm \<noteq> [] \<and> list_all name_char nm \<and> list_all isspace ws
      \<and> dt \<noteq> [] \<and> list_all dtype_char dt \<and> isdigit d \<and> shp \<in> lang PAT_SHAPE)"
proof -
  let ?P7 = "Seq (Chr CHR '':'') PAT_SHAPE"
  let ?P6 = "Seq (In digits) ?P7"
  let ?P5 = "Seq (Chr CHR '':'') ?P6"
  let ?P4 = "Seq (Plus1 (NotIn '':'')) ?P5"
  let ?P3 = "Seq (Chr CHR '':'') ?P4"
  let ?P2 = "Seq (Star (In whitespace)) ?P3"
  let ?P1 = "Seq (Plus1 (NotIn '': '')) ?P2"
  have P0: "PAT_TAGLINE = Seq (Chr CHR ''@'') ?P1"
    by (simp only: PAT_TAGLINE_def)
  show ?thesis
  proof
    assume "s \<in> lang PAT_TAGLINE"
    then obtain v1 where s: "s = CHR ''@'' # v1" and v1: "v1 \<in> lang ?P1"
      unfolding P0 seq_Chr by blast
    from v1 obtain nm v2 where v1e: "v1 = nm @ v2" and nm: "nm \<noteq> []" "list_all name_char nm"
      and v2: "v2 \<in> lang ?P2"
      unfolding plus_NotIn_seq name_char_set by blast
    from v2 obtain ws v3 where v2e: "v2 = ws @ v3" and ws: "list_all isspace ws"
      and v3: "v3 \<in> lang ?P3"
      unfolding star_In_seq isspace_set by blast
    from v3 obtain v4 where v3e: "v3 = CHR '':'' # v4" and v4: "v4 \<in> lang ?P4"
      unfolding seq_Chr by blast
    from v4 obtain dt v5 where v4e: "v4 = dt @ v5" and dt: "dt \<noteq> []" "list_all dtype_char dt"
      and v5: "v5 \<in> lang ?P5"
      unfolding plus_NotIn_seq dtype_char_set by blast
    from v5 obtain v6 where v5e: "v5 = CHR '':'' # v6" and v6: "v6 \<in> lang ?P6"
      unfolding seq_Chr by blast
    from v6 obtain d v7 where v6e: "v6 = d # v7" and d: "isdigit d" and v7: "v7 \<in> lang ?P7"
      unfolding seq_In isdigit_set by blast
    from v7 obtain shp where v7e: "v7 = CHR '':'' # shp" and shp: "shp \<in> lang PAT_SHAPE"
      unfolding seq_Chr by blast
    have "s = CHR ''@'' # nm @ ws @ CHR '':'' # dt @ CHR '':'' # d # CHR '':'' # shp"
      by (simp only: s v1e v2e v3e v4e v5e v6e v7e)
    with nm ws dt d shp show "\<exists>nm ws dt d shp.
      s = CHR ''@'' # nm @ ws @ CHR '':'' # dt @ CHR '':'' # d # CHR '':'' # shp
      \<and> nm \<noteq> [] \<and> list_all name_char nm \<and> list_all isspace ws
      \<and> dt \<noteq> [] \<and> list_all dtype_char dt \<and> isdigit d \<and> shp \<in> lang PAT_SHAPE"
      by blast
  next
    assume "\<exists>nm ws dt d shp.
      s = CHR ''@'' # nm @ ws @ CHR '':'' # dt @ CHR '':'' # d # CHR '':'' # shp
      \<and> nm \<noteq> [] \<and> list_all name_char nm \<and> list_all isspace ws
      \<and> dt \<noteq> [] \<and> list_all dtype_char dt \<and> isdigit d \<and> shp \<in> lang PAT_SHAPE"
    then obtain nm ws dt d shp where
      s: "s = CHR ''@'' # nm @ ws @ CHR '':'' # dt @ CHR '':'' # d # CHR '':'' # shp"
      and nm: "nm \<noteq> []" "list_all name_char nm" and ws: "list_all isspace ws"
      and dt: "dt \<noteq> []" "list_all dtype_char dt" and d: "isdigit d"
      and shp: "shp \<in> lang PAT_SHAPE"
      by blast
    from shp have "CHR '':'' # shp \<in> lang ?P7"
      unfolding seq_Chr by blast
    with d have "d # CHR '':'' # shp \<in> lang ?P6"
      unfolding seq_In isdigit_set by blast
    then have "CHR '':'' # d # CHR '':'' # shp \<in> lang ?P5"
      unfolding seq_Chr by blast
    with dt have "dt @ CHR '':'' # d # CHR '':'' # shp \<in> lang ?P4"
      unfolding plus_NotIn_seq dtype_char_set by blast
    then have "CHR '':'' # dt @ CHR '':'' # d # CHR '':'' # shp \<in> lang ?P3"
      unfolding seq_Chr by blast
    with ws have "ws @ CHR '':'' # dt @ CHR '':'' # d # CHR '':'' # shp \<in> lang ?P2"
      unfolding star_In_seq isspace_set by blast
    with nm have "nm @ ws @ CHR '':'' # dt @ CHR '':'' # d # CHR '':'' # shp \<in> lang ?P1"
      unfolding plus_NotIn_seq name_char_set by blast
    then have "CHR ''@'' # nm @ ws @ CHR '':'' # dt @ CHR '':'' # d # CHR '':'' # shp
      \<in> lang (Seq (Chr CHR ''@'') ?P1)"
      unfolding seq_Chr by blast
    then show "s \<in> lang PAT_TAGLINE"
      by (simp only: s P0)
  qed
qed


lemma takeWhile_stop: "list_all P xs \<Longrightarrow> \<not> P y \<Longrightarrow> takeWhile P (xs @ y # zs) = xs"
  by (induction xs) auto

lemma dropWhile_stop: "list_all P xs \<Longrightarrow> \<not> P y \<Longrightarrow> dropWhile P (xs @ y # zs) = y # zs"
  by (induction xs) auto

lemma not_class_colon: "\<not> name_char CHR '':''" "\<not> dtype_char CHR '':''" "\<not> isspace CHR '':''"
  by (simp_all add: name_char_def dtype_char_def isspace_def whitespace_def)

lemma match_rank_iff:
  "match_rank s \<noteq> None \<longleftrightarrow>
   (\<exists>d rest. s = CHR '':'' # d # CHR '':'' # rest \<and> isdigit d \<and> match_shape rest \<noteq> None)"
  by (auto simp: match_rank_def split: list.splits option.splits)

lemma match_dtype_iff:
  "match_dtype s \<noteq> None \<longleftrightarrow>
   (\<exists>dt r. s = dt @ r \<and> dt \<noteq> [] \<and> list_all dtype_char dt \<and> match_rank r \<noteq> None)"
proof
  assume a: "match_dtype s \<noteq> None"
  let ?dt = "takeWhile dtype_char s" and ?r = "dropWhile dtype_char s"
  from a have "?dt \<noteq> []" and "match_rank ?r \<noteq> None"
    by (auto simp: match_dtype_def Let_def split: if_splits option.splits)
  moreover have "s = ?dt @ ?r" by simp
  moreover have "list_all dtype_char ?dt"
    by (auto simp: list_all_iff dest: set_takeWhileD)
  ultimately show "\<exists>dt r. s = dt @ r \<and> dt \<noteq> [] \<and> list_all dtype_char dt \<and> match_rank r \<noteq> None"
    by blast
next
  assume "\<exists>dt r. s = dt @ r \<and> dt \<noteq> [] \<and> list_all dtype_char dt \<and> match_rank r \<noteq> None"
  then obtain dt r where s: "s = dt @ r" and dt: "dt \<noteq> []" "list_all dtype_char dt"
    and r: "match_rank r \<noteq> None"
    by blast
  from r obtain x where rx: "r = CHR '':'' # x"
    unfolding match_rank_iff by blast
  have "takeWhile dtype_char s = dt" and "dropWhile dtype_char s = r"
    using dt(2) not_class_colon(2) by (simp_all add: s rx takeWhile_stop dropWhile_stop)
  with dt(1) r show "match_dtype s \<noteq> None"
    by (auto simp: match_dtype_def Let_def split: option.splits)
qed

lemma skip_name_space:
  "list_all isspace ws \<Longrightarrow>
   dropWhile isspace (dropWhile name_char (ws @ CHR '':'' # r)) = CHR '':'' # r"
proof (induction ws)
  case Nil
  show ?case by (simp add: not_class_colon)
next
  case (Cons c ws)
  show ?case
  proof (cases "name_char c")
    case True
    with Cons show ?thesis by simp
  next
    case False
    with Cons.prems show ?thesis
      by (simp add: dropWhile_stop not_class_colon)
  qed
qed

lemma match_name_iff:
  "match_tagline s \<noteq> None \<longleftrightarrow>
   (\<exists>nm ws r. s = CHR ''@'' # nm @ ws @ CHR '':'' # r \<and> nm \<noteq> [] \<and> list_all name_char nm
      \<and> list_all isspace ws \<and> match_dtype r \<noteq> None)"
proof
  assume a: "match_tagline s \<noteq> None"
  then obtain s1 where s: "s = CHR ''@'' # s1"
    by (cases s) (auto simp: match_tagline_def split: if_splits)
  let ?nm = "takeWhile name_char s1" and ?r1 = "dropWhile name_char s1"
  let ?ws = "takeWhile isspace ?r1"
  from a s have nm: "?nm \<noteq> []"
    by (auto simp: match_tagline_def Let_def split: if_splits)
  from a s nm obtain r where r: "dropWhile isspace ?r1 = CHR '':'' # r" and m: "match_dtype r \<noteq> None"
    by (auto simp: match_tagline_def Let_def split: if_splits list.splits option.splits)
  have "s1 = ?nm @ ?r1" by simp
  moreover have "?r1 = ?ws @ dropWhile isspace ?r1" by simp
  ultimately have "s1 = ?nm @ ?ws @ CHR '':'' # r"
    using r by metis
  moreover have "list_all name_char ?nm" "list_all isspace ?ws"
    by (auto simp: list_all_iff dest: set_takeWhileD)
  ultimately show "\<exists>nm ws r. s = CHR ''@'' # nm @ ws @ CHR '':'' # r \<and> nm \<noteq> []
      \<and> list_all name_char nm \<and> list_all isspace ws \<and> match_dtype r \<noteq> None"
    using s nm m by blast
next
  assume "\<exists>nm ws r. s = CHR ''@'' # nm @ ws @ CHR '':'' # r \<and> nm \<noteq> [] \<and> list_all name_char nm
      \<and> list_all isspace ws \<and> match_dtype r \<noteq> None"
  then obtain nm ws r where s: "s = CHR ''@'' # nm @ ws @ CHR '':'' # r" and nm: "nm \<noteq> []"
    "list_all name_char nm" and ws: "list_all isspace ws" and m: "match_dtype r \<noteq> None"
    by blast
  have nmP: "\<And>x. x \<in> set nm \<Longrightarrow> name_char x"
    using nm(2) by (simp add: list_all_iff)
  have t: "takeWhile name_char (nm @ ws @ CHR '':'' # r) \<noteq> []"
    using nm(1) nmP by (simp add: takeWhile_append2)
  have "dropWhile name_char (nm @ ws @ CHR '':'' # r) = dropWhile name_char (ws @ CHR '':'' # r)"
    using nmP by (simp add: dropWhile_append2)
  then have d: "dropWhile isspace (dropWhile name_char (nm @ ws @ CHR '':'' # r)) = CHR '':'' # r"
    using skip_name_space [OF ws] by simp
  show "match_tagline s \<noteq> None"
    using t d m by (auto simp: s match_tagline_def Let_def split: option.splits)
qed


lemma lang_dollar:
  "s \<in> lang PAT_TAGLINE_dollar \<longleftrightarrow>
   s \<in> lang PAT_TAGLINE \<or> (\<exists>p. s = p @ [CHR ''\<newline>''] \<and> p \<in> lang PAT_TAGLINE)"
proof -
  have "s \<in> lang PAT_TAGLINE_dollar \<longleftrightarrow>
    (\<exists>u v. s = u @ v \<and> u \<in> lang PAT_TAGLINE \<and> (v = [CHR ''\<newline>''] \<or> v = []))"
    unfolding PAT_TAGLINE_dollar_def by (simp only: lang.simps(6)) auto
  then show ?thesis by auto
qed

lemma match_tagline_parts:
  "match_tagline s \<noteq> None \<longleftrightarrow>
   (\<exists>nm ws dt d rest.
      s = CHR ''@'' # nm @ ws @ CHR '':'' # dt @ CHR '':'' # d # CHR '':'' # rest
      \<and> nm \<noteq> [] \<and> list_all name_char nm \<and> list_all isspace ws
      \<and> dt \<noteq> [] \<and> list_all dtype_char dt \<and> isdigit d \<and> match_shape rest \<noteq> None)"
  unfolding match_name_iff match_dtype_iff match_rank_iff by blast

lemma match_tagline_lang: "match_tagline s \<noteq> None \<longleftrightarrow> s \<in> lang PAT_TAGLINE_dollar"
proof
  assume "match_tagline s \<noteq> None"
  then obtain nm ws dt d rest where
    s: "s = CHR ''@'' # nm @ ws @ CHR '':'' # dt @ CHR '':'' # d # CHR '':'' # rest"
    and c: "nm \<noteq> []" "list_all name_char nm" "list_all isspace ws"
      "dt \<noteq> []" "list_all dtype_char dt" "isdigit d"
    and r: "match_shape rest \<noteq> None"
    unfolding match_tagline_parts by blast
  from r consider "rest \<in> lang PAT_SHAPE"
    | p where "rest = p @ [CHR ''\<newline>'']" "p \<in> lang PAT_SHAPE"
    unfolding match_shape_iff by blast
  then show "s \<in> lang PAT_TAGLINE_dollar"
  proof cases
    case 1
    with s c have "s \<in> lang PAT_TAGLINE"
      unfolding lang_tagline_iff by blast
    then show ?thesis unfolding lang_dollar by blast
  next
    case 2
    let ?q = "CHR ''@'' # nm @ ws @ CHR '':'' # dt @ CHR '':'' # d # CHR '':'' # p"
    from 2 c have "?q \<in> lang PAT_TAGLINE"
      unfolding lang_tagline_iff by blast
    moreover have "s = ?q @ [CHR ''\<newline>'']"
      using s 2(1) by simp
    ultimately show ?thesis unfolding lang_dollar by blast
  qed
next
  assume "s \<in> lang PAT_TAGLINE_dollar"
  then consider "s \<in> lang PAT_TAGLINE"
    | q where "s = q @ [CHR ''\<newline>'']" "q \<in> lang PAT_TAGLINE"
    unfolding lang_dollar by blast
  then show "match_tagline s \<noteq> None"
  proof cases
    case 1
    then obtain nm ws dt d shp where
      s: "s = CHR ''@'' # nm @ ws @ CHR '':'' # dt @ CHR '':'' # d # CHR '':'' # shp"
      and c: "nm \<noteq> []" "list_all name_char nm" "list_all isspace ws"
        "dt \<noteq> []" "list_all dtype_char dt" "isdigit d"
      and shp: "shp \<in> lang PAT_SHAPE"
      unfolding lang_tagline_iff by blast
    from shp have "match_shape shp \<noteq> None"
      unfolding match_shape_iff by blast
    with s c show ?thesis
      unfolding match_tagline_parts by blast
  next
    case 2
    then obtain nm ws dt d shp where
      q: "q = CHR ''@'' # nm @ ws @ CHR '':'' # dt @ CHR '':'' # d # CHR '':'' # shp"
      and c: "nm \<noteq> []" "list_all name_char nm" "list_all isspace ws"
        "dt \<noteq> []" "list_all dtype_char dt" "isdigit d"
      and shp: "shp \<in> lang PAT_SHAPE"
      unfolding lang_tagline_iff by blast
    from shp have "match_shape (shp @ [CHR ''\<newline>'']) \<noteq> None"
      unfolding match_shape_iff by blast
    moreover have "s = CHR ''@'' # nm @ ws @ CHR '':'' # dt @ CHR '':'' # d # CHR '':''
      # (shp @ [CHR ''\<newline>''])"
      using 2(1) q by simp
    ultimately show ?thesis
      using c unfolding match_tagline_parts by blast
  qed
qed


lemma np_array_error_text:
  "Converter_call False conv raw = Inl err \<Longrightarrow> \<exists>values. conv values = Inl err"
  by (auto simp: Converter_call_def Let_def split: sum.splits)

lemma logical_errors:
  "LogicalConverter_convert vals = Inl err \<Longrightarrow> \<not> tag_format_error (reraise_conversion err)"
  by (induction vals arbitrary: err)
     (auto simp: tag_format_error_def split: if_splits sum.splits)

lemma int_errors:
  "IntConverter_convert np values = Inl err \<Longrightarrow> \<not> tag_format_error (reraise_conversion err)"
  by (auto simp: IntConverter_convert_def tag_format_error_def split: sum.splits)

lemma float_errors:
  "FloatConverter_convert np values = Inl err \<Longrightarrow> \<not> tag_format_error (reraise_conversion err)"
  by (auto simp: FloatConverter_convert_def tag_format_error_def split: sum.splits)

lemma complex_errors:
  "ComplexConverter_call np False raw = Inl err \<Longrightarrow> \<not> tag_format_error (reraise_conversion err)"
  by (auto simp: ComplexConverter_call_def ComplexConverter_convert_def tag_format_error_def
      Let_def split: rawdata.splits if_splits sum.splits)

lemma converter_errors:
  assumes "CONVERTERS np dt = Some conv" and "conv raw = Inl err"
  shows "\<not> tag_format_error (reraise_conversion err)"
proof -
  from assms(1) consider
      "conv = Converter_call False (IntConverter_convert np)"
    | "conv = Converter_call False (FloatConverter_convert np)"
    | "conv = ComplexConverter_call np False"
    | "conv = Converter_call False LogicalConverter_convert"
    by (auto simp: CONVERTERS_def split: if_splits)
  then show ?thesis
  proof cases
    case 1
    with assms(2) show ?thesis using np_array_error_text int_errors by blast
  next
    case 2
    with assms(2) show ?thesis using np_array_error_text float_errors by blast
  next
    case 3
    with assms(2) show ?thesis using complex_errors by blast
  next
    case 4
    with assms(2) show ?thesis using np_array_error_text logical_errors by blast
  qed
qed

lemma check_shape_errors: "check_shape np r sh d = Inl err \<Longrightarrow> \<not> tag_format_error err"
  by (auto simp: check_shape_def np_reshape_def py_len_def tag_format_error_def Let_def
      split: if_splits sum.splits converted.splits)

lemma matched_no_tag_format_error:
  assumes "match_tagline line \<noteq> None" and "TaggedEntry_init np line raw = Inl err"
  shows "\<not> tag_format_error err"
proof -
  from assms(1) obtain nm dt rk shp where m: "match_tagline line = Some (nm, dt, rk, shp)"
    by auto
  show ?thesis
  proof (cases "py_int rk")
    case None
    with m assms(2) show ?thesis
      by (auto simp: TaggedEntry_init_def tag_format_error_def)
  next
    case (Some r)
    note rk = Some
    show ?thesis
    proof (cases "if 0 < r then those (map py_int (str_split_sep CHR '','' shp)) else Some []")
      case None
      with m rk assms(2) show ?thesis
        by (auto simp: TaggedEntry_init_def tag_format_error_def)
    next
      case (Some sh)
      note sh = Some
      show ?thesis
      proof (cases "CONVERTERS np dt")
        case None
        with m rk sh assms(2) show ?thesis
          by (auto simp: TaggedEntry_init_def tag_format_error_def)
      next
        case (Some conv)
        note conv = Some
        show ?thesis
        proof (cases "conv raw")
          case (Inl e)
          with m rk sh conv assms(2) have "err = reraise_conversion e"
            by (auto simp: TaggedEntry_init_def)
          with converter_errors [OF conv Inl] show ?thesis by simp
        next
          case (Inr d)
          with m rk sh conv assms(2) have "check_shape np r sh d = Inl err"
            by (auto simp: TaggedEntry_init_def split: sum.splits)
          then show ?thesis by (rule check_shape_errors)
        qed
      qed
    qed
  qed
qed

lemma unmatched_tag_format_error:
  "match_tagline line = None \<Longrightarrow>
   TaggedEntry_init np line raw = Inl (InvalidEntryError 0 0 ''Invalid tag format'')"
  by (simp add: TaggedEntry_init_def)

text \<open>
  Claim C5, as amended. For every header line whose characters are code points below 256
  (on which \<open>\d\<close> is \<open>0\<close> to \<open>9\<close>), construction fails with \<open>Invalid tag format\<close> exactly
  when the line does not match the pattern of the code: \<open>@\<close>, a non-empty name free of
  \<open>:\<close> and space, optional whitespace, \<open>:\<close>, a non-empty dtype free of \<open>:\<close>, \<open>:\<close>,
  a rank of exactly one digit, \<open>:\<close>, a shape that is empty or a comma-separated list of
  digit strings (whatever the rank), and at most one newline at the end. Header lines with
  other characters are not covered.
\<close>

theorem C5_tag_format_error_iff_pattern:
  "(TaggedEntry_init np line raw = Inl (InvalidEntryError 0 0 ''Invalid tag format''))
     = (line \<notin> lang PAT_TAGLINE_dollar)
   \<and> (\<exists>s e. TaggedEntry_init np line raw = Inl (InvalidEntryError s e ''Invalid tag format''))
     = (line \<notin> lang PAT_TAGLINE_dollar)
   \<and> (line \<in> lang PAT_TAGLINE_dollar)
     = (\<exists>nm ws dt d shp nl.
          line = CHR ''@'' # nm @ ws @ CHR '':'' # dt @ CHR '':'' # d # CHR '':'' # shp @ nl
          \<and> nm \<noteq> [] \<and> list_all name_char nm \<and> list_all isspace ws
          \<and> dt \<noteq> [] \<and> list_all dtype_char dt \<and> isdigit d \<and> shp \<in> lang PAT_SHAPE
          \<and> (nl = [] \<or> nl = [CHR ''\<newline>'']))"
proof -
  have a: "(\<exists>s e. TaggedEntry_init np line raw = Inl (InvalidEntryError s e ''Invalid tag format''))
     = (line \<notin> lang PAT_TAGLINE_dollar)"
  proof (cases "match_tagline line = None")
    case True
    then have "line \<notin> lang PAT_TAGLINE_dollar"
      using match_tagline_lang [of line] by simp
    with unmatched_tag_format_error [OF True, of np raw] show ?thesis by simp
  next
    case False
    then have "line \<in> lang PAT_TAGLINE_dollar"
      using match_tagline_lang [of line] by simp
    moreover have "\<not> (\<exists>s e. TaggedEntry_init np line raw
      = Inl (InvalidEntryError s e ''Invalid tag format''))"
      using matched_no_tag_format_error [OF False, of np raw]
      by (auto simp: tag_format_error_def)
    ultimately show ?thesis by simp
  qed
  have b: "(TaggedEntry_init np line raw = Inl (InvalidEntryError 0 0 ''Invalid tag format''))
     = (line \<notin> lang PAT_TAGLINE_dollar)"
  proof (cases "match_tagline line = None")
    case True
    then have "line \<notin> lang PAT_TAGLINE_dollar"
      using match_tagline_lang [of line] by simp
    with unmatched_tag_format_error [OF True, of np raw] show ?thesis by simp
  next
    case False
    with a match_tagline_lang [of line] show ?thesis by auto
  qed
  have c: "(line \<in> lang PAT_TAGLINE_dollar)
     = (\<exists>nm ws dt d shp nl.
          line = CHR ''@'' # nm @ ws @ CHR '':'' # dt @ CHR '':'' # d # CHR '':'' # shp @ nl
          \<and> nm \<noteq> [] \<and> list_all name_char nm \<and> list_all isspace ws
          \<and> dt \<noteq> [] \<and> list_all dtype_char dt \<and> isdigit d \<and> shp \<in> lang PAT_SHAPE
          \<and> (nl = [] \<or> nl = [CHR ''\<newline>'']))"
    (is "?L = ?R")
  proof
    assume ?L
    then consider "line \<in> lang PAT_TAGLINE"
      | q where "line = q @ [CHR ''\<newline>'']" "q \<in> lang PAT_TAGLINE"
      unfolding lang_dollar by blast
    then show ?R
    proof cases
      case 1
      then obtain nm ws dt d shp where
        "line = CHR ''@'' # nm @ ws @ CHR '':'' # dt @ CHR '':'' # d # CHR '':'' # shp @ []"
        "nm \<noteq> []" "list_all name_char nm" "list_all isspace ws"
        "dt \<noteq> []" "list_all dtype_char dt" "isdigit d" "shp \<in> lang PAT_SHAPE"
        unfolding lang_tagline_iff by auto
      then show ?thesis by blast
    next
      case 2
      from 2(2) obtain nm ws dt d shp where
        q: "q = CHR ''@'' # nm @ ws @ CHR '':'' # dt @ CHR '':'' # d # CHR '':'' # shp"
        and c: "nm \<noteq> []" "list_all name_char nm" "list_all isspace ws"
        "dt \<noteq> []" "list_all dtype_char dt" "isdigit d" "shp \<in> lang PAT_SHAPE"
        unfolding lang_tagline_iff by blast
      have "line = CHR ''@'' # nm @ ws @ CHR '':'' # dt @ CHR '':'' # d # CHR '':''
        # shp @ [CHR ''\<newline>'']"
        using 2(1) q by simp
      with c show ?thesis by blast
    qed
  next
    assume ?R
    then obtain nm ws dt d shp nl where
      l: "line = CHR ''@'' # nm @ ws @ CHR '':'' # dt @ CHR '':'' # d # CHR '':'' # shp @ nl"
      and c: "nm \<noteq> []" "list_all name_char nm" "list_all isspace ws"
        "dt \<noteq> []" "list_all dtype_char dt" "isdigit d" "shp \<in> lang PAT_SHAPE"
      and nl: "nl = [] \<or> nl = [CHR ''\<newline>'']"
      by blast
    let ?q = "CHR ''@'' # nm @ ws @ CHR '':'' # dt @ CHR '':'' # d # CHR '':'' # shp"
    from c have q: "?q \<in> lang PAT_TAGLINE"
      unfolding lang_tagline_iff by blast
    from nl show ?L
    proof
      assume "nl = []"
      with l q show ?thesis unfolding lang_dollar by simp
    next
      assume "nl = [CHR ''\<newline>'']"
      with l have "line = ?q @ [CHR ''\<newline>'']" by simp
      with q show ?thesis unfolding lang_dollar by blast
    qed
  qed
  from a b c show ?thesis by blast
qed


text \<open>
  Claim C5, as stated, fails in both directions: a header of rank 10 with ten dimensions
  is in the grammar of the specification and is rejected with \<open>Invalid tag format\<close>; a
  header of rank 0 with a shape is not in that grammar and is accepted.
\<close>

theorem C5_counterexample:
  "spec_tagline ''@a:real:10:1,1,1,1,1,1,1,1,1,1''
   \<and> TaggedEntry_init ex_numpy ''@a:real:10:1,1,1,1,1,1,1,1,1,1''
       (Lines [''1 1 1 1 1 1 1 1 1 1''])
     = Inl (InvalidEntryError 0 0 ''Invalid tag format'')
   \<and> \<not> spec_tagline ''@a:logical:0:5''
   \<and> TaggedEntry_init ex_numpy ''@a:logical:0:5'' (Lines [''T''])
     = Inr \<lparr>tagline = ''@a:logical:0:5'', name = ''a'', dtype = ''logical'', rank = 0,
            shape = [], data = [BoolV True]\<rparr>"
proof -
  have 1: "spec_tagline ''@a:real:10:1,1,1,1,1,1,1,1,1,1''"
    by (simp add: spec_tagline_def str_split_sep_def py_int_def isdigit_def digits_def
        digit_val_def)
  have 2: "TaggedEntry_init ex_numpy ''@a:real:10:1,1,1,1,1,1,1,1,1,1''
       (Lines [''1 1 1 1 1 1 1 1 1 1''])
     = Inl (InvalidEntryError 0 0 ''Invalid tag format'')"
    by (simp add: tagline_eval entry_eval)
  have 3: "\<not> spec_tagline ''@a:logical:0:5''"
    by (simp add: spec_tagline_def str_split_sep_def py_int_def isdigit_def digits_def
        digit_val_def)
  have 4: "TaggedEntry_init ex_numpy ''@a:logical:0:5'' (Lines [''T''])
     = Inr \<lparr>tagline = ''@a:logical:0:5'', name = ''a'', dtype = ''logical'', rank = 0,
            shape = [], data = [BoolV True]\<rparr>"
    by (simp add: tagline_eval entry_eval)
  from 1 2 3 4 show ?thesis by blast
qed

end
